theory Spec2Isabelle
  imports
    Complex_Main
    "HOL-Library.Word"
    "HOL-Library.Char_ord"
    "HOL-Library.List_Lexorder"
    "HOL-Library.Multiset"
    "HOL-Library.FSet"
begin

unbundle bit_operations_syntax

section \<open>Python values that reach the cache\<close>

text \<open>
  The values of \<^verbatim>\<open>gee_app/utils/cache_utils.py\<close>: what \<^verbatim>\<open>json.dumps\<close> accepts, and one
  constructor for everything it refuses.  A Python \<^verbatim>\<open>dict\<close> keeps its insertion order, so it
  is an association list (keys are strings; a well-formed dict has no key twice).  A
  Python \<^verbatim>\<open>str\<close> is a \<^typ>\<open>string\<close> whose characters are the code points 0 to 255.
  \<open>JOpaque s\<close> is an object that \<^verbatim>\<open>json\<close> cannot serialise and whose \<^verbatim>\<open>str()\<close> is \<open>s\<close>.
  \<open>JFloat t\<close> is the \<^verbatim>\<open>float\<close> that \<^verbatim>\<open>json.dumps\<close> writes as \<open>t\<close>, such as \<^verbatim>\<open>1700000000.25\<close>, \<^verbatim>\<open>1e-07\<close>
  or \<^verbatim>\<open>NaN\<close>: the model does no arithmetic on the floats of a JSON value, it only writes
  and reads them.
\<close>

datatype json =
    JNull
  | JBool bool
  | JInt int
  | JFloat string
  | JStr string
  | JList "json list"
  | JTuple "json list"
  | JDict "(string \<times> json) list"
  | JOpaque string

datatype exn =
    ValueError
  | TypeError
  | AttributeError
  | JSONDecodeError
  | ConnectionError
  | RedisConnectionError
  | RedisTimeoutError
  | ResponseError
  | OSError

fun wf_json :: "json \<Rightarrow> bool" where
  "wf_json (JList xs) = list_all wf_json xs"
| "wf_json (JTuple xs) = list_all wf_json xs"
| "wf_json (JDict kvs) = (distinct (map fst kvs) \<and> list_all (\<lambda>kv. wf_json (snd kv)) kvs)"
| "wf_json _ = True"

fun serializable :: "json \<Rightarrow> bool" where
  "serializable (JOpaque s) = False"
| "serializable (JList xs) = list_all serializable xs"
| "serializable (JTuple xs) = list_all serializable xs"
| "serializable (JDict kvs) = list_all (\<lambda>kv. serializable (snd kv)) kvs"
| "serializable _ = True"

section \<open>\<^verbatim>\<open>json.dumps\<close>\<close>

definition digit_char :: "nat \<Rightarrow> char" where
  "digit_char n = ''0123456789abcdef'' ! n"

fun show_nat :: "nat \<Rightarrow> string" where
  "show_nat n = (if n < 10 then [digit_char n] else show_nat (n div 10) @ [digit_char (n mod 10)])"

declare show_nat.simps [simp del]

definition show_int :: "int \<Rightarrow> string" where
  "show_int i = (if i < 0 then CHR ''-'' # show_nat (nat (- i)) else show_nat (nat i))"

text \<open>
  \<^verbatim>\<open>py_encode_basestring_ascii\<close>: the quote and the backslash are escaped, the five
  control characters with a short form take it, every other character outside
  \<^verbatim>\<open>' '..'~'\<close> becomes \<^verbatim>\<open>\u00xx\<close>.
\<close>

definition escape_char :: "char \<Rightarrow> string" where
  "escape_char c =
     (if c = CHR 0x22 then [CHR 0x5C, CHR 0x22]
      else if c = CHR 0x5C then [CHR 0x5C, CHR 0x5C]
      else if c = CHR 0x0A then [CHR 0x5C, CHR ''n'']
      else if c = CHR 0x0D then [CHR 0x5C, CHR ''r'']
      else if c = CHR 0x09 then [CHR 0x5C, CHR ''t'']
      else if c = CHR 0x08 then [CHR 0x5C, CHR ''b'']
      else if c = CHR 0x0C then [CHR 0x5C, CHR ''f'']
      else if 32 \<le> (of_char c :: nat) \<and> (of_char c :: nat) \<le> 126 then [c]
      else [CHR 0x5C, CHR ''u'', CHR ''0'', CHR ''0'',
            digit_char ((of_char c :: nat) div 16), digit_char ((of_char c :: nat) mod 16)])"

definition encode_string :: "string \<Rightarrow> string" where
  "encode_string s = CHR 0x22 # concat (map escape_char s) @ [CHR 0x22]"

fun join_comma :: "string list \<Rightarrow> string" where
  "join_comma [] = []"
| "join_comma [x] = x"
| "join_comma (x # y # ys) = x @ '', '' @ join_comma (y # ys)"

text \<open>
  \<^verbatim>\<open>sorted(d.items())\<close>: the keys of a dict are distinct, so the order of the pairs is
  the order of their keys, and Python compares strings code point by code point.
\<close>

definition sorted_items :: "(string \<times> json) list \<Rightarrow> (string \<times> json) list" where
  "sorted_items kvs = sort_key fst kvs"

definition dict_items :: "bool \<Rightarrow> (string \<times> json) list \<Rightarrow> (string \<times> json) list" where
  "dict_items sort_keys kvs = (if sort_keys then sorted_items kvs else kvs)"

lemma set_sorted_items [simp]: "set (sorted_items kvs) = set kvs"
  by (simp add: sorted_items_def)

lemma set_dict_items [simp]: "set (dict_items sk kvs) = set kvs"
  by (simp add: dict_items_def)

lemma size_snd_items:
  "(k, v) \<in> set kvs \<Longrightarrow> size v < Suc (size_list (size_prod (\<lambda>_. 0) size) kvs)"
  by (induction kvs) auto

function dumps_text :: "bool \<Rightarrow> json \<Rightarrow> string" where
  "dumps_text sk JNull = ''null''"
| "dumps_text sk (JBool b) = (if b then ''true'' else ''false'')"
| "dumps_text sk (JInt i) = show_int i"
| "dumps_text sk (JFloat t) = t"
| "dumps_text sk (JStr s) = encode_string s"
| "dumps_text sk (JList xs) = ''['' @ join_comma (map (dumps_text sk) xs) @ '']''"
| "dumps_text sk (JTuple xs) = ''['' @ join_comma (map (dumps_text sk) xs) @ '']''"
| "dumps_text sk (JDict kvs) =
     ''{'' @ join_comma (map (\<lambda>kv. encode_string (fst kv) @ '': '' @ dumps_text sk (snd kv))
                          (dict_items sk kvs)) @ ''}''"
| "dumps_text sk (JOpaque s) = []"
  by pat_completeness auto
termination
  by (relation "measure (\<lambda>(sk, v). size v)")
     (auto simp: less_Suc_eq_le size_list_estimation' dest!: size_snd_items)

text \<open>
  \<^verbatim>\<open>json.dumps(v, sort_keys=sk)\<close> raises \<^verbatim>\<open>TypeError\<close> on an object it cannot serialise,
  wherever in the value that object sits.
\<close>

definition json_dumps :: "bool \<Rightarrow> json \<Rightarrow> exn + string" where
  "json_dumps sk v = (if serializable v then Inr (dumps_text sk v) else Inl TypeError)"

section \<open>Key derivation\<close>

function (sequential) sort_dict_recursive :: "json \<Rightarrow> json" where
  "sort_dict_recursive (JDict kvs) =
     JDict (map (\<lambda>kv. (fst kv, sort_dict_recursive (snd kv))) (sorted_items kvs))"
| "sort_dict_recursive (JList xs) = JList (map sort_dict_recursive xs)"
| "sort_dict_recursive obj = obj"
  by pat_completeness auto
termination
  by (relation "measure size")
     (auto simp: less_Suc_eq_le size_list_estimation' dest!: size_snd_items)

subsection \<open>SHA-256 (\<^verbatim>\<open>hashlib.sha256\<close>, FIPS 180-4)\<close>

text \<open>
  Words of 32 bits are integers in \<open>0 ..< 2 ^ 32\<close>; addition wraps by \<open>mod 2 ^ 32\<close>, and
  the bitwise operations are those of \<^typ>\<open>int\<close> on such values.  Bytes are integers below 256.
\<close>

type_synonym u32 = int
type_synonym byte = int

definition add32 :: "u32 \<Rightarrow> u32 \<Rightarrow> u32" where
  "add32 x y = (x + y) mod 2 ^ 32"

definition not32 :: "u32 \<Rightarrow> u32" where
  "not32 x = 2 ^ 32 - 1 - x"

definition rotr :: "nat \<Rightarrow> u32 \<Rightarrow> u32" where
  "rotr n x = (x div 2 ^ n) OR ((x * 2 ^ (32 - n)) mod 2 ^ 32)"

definition Ch :: "u32 \<Rightarrow> u32 \<Rightarrow> u32 \<Rightarrow> u32" where
  "Ch x y z = (x AND y) XOR (not32 x AND z)"

definition Maj :: "u32 \<Rightarrow> u32 \<Rightarrow> u32 \<Rightarrow> u32" where
  "Maj x y z = (x AND y) XOR (x AND z) XOR (y AND z)"

definition big_sigma0 :: "u32 \<Rightarrow> u32" where
  "big_sigma0 x = rotr 2 x XOR rotr 13 x XOR rotr 22 x"

definition big_sigma1 :: "u32 \<Rightarrow> u32" where
  "big_sigma1 x = rotr 6 x XOR rotr 11 x XOR rotr 25 x"

definition small_sigma0 :: "u32 \<Rightarrow> u32" where
  "small_sigma0 x = rotr 7 x XOR rotr 18 x XOR (x div 2 ^ 3)"

definition small_sigma1 :: "u32 \<Rightarrow> u32" where
  "small_sigma1 x = rotr 17 x XOR rotr 19 x XOR (x div 2 ^ 10)"

definition K256 :: "u32 list" where
  "K256 = [
  1116352408, 1899447441, 3049323471, 3921009573, 961987163, 1508970993, 2453635748, 2870763221,
  3624381080, 310598401, 607225278, 1426881987, 1925078388, 2162078206, 2614888103, 3248222580,
  3835390401, 4022224774, 264347078, 604807628, 770255983, 1249150122, 1555081692, 1996064986,
  2554220882, 2821834349, 2952996808, 3210313671, 3336571891, 3584528711, 113926993, 338241895,
  666307205, 773529912, 1294757372, 1396182291, 1695183700, 1986661051, 2177026350, 2456956037,
  2730485921, 2820302411, 3259730800, 3345764771, 3516065817, 3600352804, 4094571909, 275423344,
  430227734, 506948616, 659060556, 883997877, 958139571, 1322822218, 1537002063, 1747873779,
  1955562222, 2024104815, 2227730452, 2361852424, 2428436474, 2756734187, 3204031479, 3329325298]"

type_synonym sha_state = "u32 \<times> u32 \<times> u32 \<times> u32 \<times> u32 \<times> u32 \<times> u32 \<times> u32"

definition H256 :: "sha_state" where
  "H256 = (1779033703, 3144134277, 1013904242, 2773480762,
           1359893119, 2600822924, 528734635, 1541459225)"

text \<open>The message schedule: 48 more words after the 16 of the block.\<close>

fun schedule :: "nat \<Rightarrow> u32 list \<Rightarrow> u32 list" where
  "schedule 0 ws = ws"
| "schedule (Suc n) ws =
     schedule n (ws @ [add32 (add32 (small_sigma1 (ws ! (length ws - 2))) (ws ! (length ws - 7)))
                             (add32 (small_sigma0 (ws ! (length ws - 15))) (ws ! (length ws - 16)))])"

definition sha_round :: "sha_state \<Rightarrow> u32 \<times> u32 \<Rightarrow> sha_state" where
  "sha_round st kw = (case st of (a, b, c, d, e, f, g, h) \<Rightarrow>
     (let t1 = add32 (add32 (add32 h (big_sigma1 e)) (add32 (Ch e f g) (fst kw))) (snd kw);
          t2 = add32 (big_sigma0 a) (Maj a b c)
      in (add32 t1 t2, a, b, c, add32 d t1, e, f, g)))"

definition add_state :: "sha_state \<Rightarrow> sha_state \<Rightarrow> sha_state" where
  "add_state s t = (case s of (a, b, c, d, e, f, g, h) \<Rightarrow>
     case t of (a', b', c', d', e', f', g', h') \<Rightarrow>
       (add32 a a', add32 b b', add32 c c', add32 d d',
        add32 e e', add32 f f', add32 g g', add32 h h'))"

definition compress :: "sha_state \<Rightarrow> u32 list \<Rightarrow> sha_state" where
  "compress hs block = add_state hs (foldl sha_round hs (zip K256 (schedule 48 block)))"

definition be_word :: "byte list \<Rightarrow> u32" where
  "be_word bs = foldl (\<lambda>acc b. acc * 256 + b) 0 bs"

fun chunks :: "nat \<Rightarrow> nat \<Rightarrow> 'a list \<Rightarrow> 'a list list" where
  "chunks 0 n xs = []"
| "chunks (Suc fuel) n xs = (if xs = [] then [] else take n xs # chunks fuel n (drop n xs))"

definition sha_pad :: "byte list \<Rightarrow> byte list" where
  "sha_pad bs =
     (let l = length bs; z = (55 + 64 - l mod 64) mod 64
      in bs @ [0x80] @ replicate z 0 @
         map (\<lambda>i. (8 * int l) div 256 ^ (7 - i) mod 256) [0..<8])"

definition message_blocks :: "byte list \<Rightarrow> u32 list list" where
  "message_blocks bs =
     map (\<lambda>blk. map be_word (chunks 16 4 blk)) (chunks (length (sha_pad bs)) 64 (sha_pad bs))"

definition sha256 :: "byte list \<Rightarrow> sha_state" where
  "sha256 bs = foldl compress H256 (message_blocks bs)"

definition hex32 :: "u32 \<Rightarrow> string" where
  "hex32 w = map (\<lambda>i. digit_char (nat (w div 16 ^ (7 - i) mod 16))) [0..<8]"

text \<open>\<^verbatim>\<open>str.encode('utf-8')\<close> on code points below 256: one byte below 128, two bytes from there.\<close>

definition utf8_encode :: "string \<Rightarrow> byte list" where
  "utf8_encode s =
     concat (map (\<lambda>c. let n = (of_char c :: int)
                       in if n < 128 then [n] else [192 + n div 64, 128 + n mod 64]) s)"

definition hex_state :: "sha_state \<Rightarrow> string" where
  "hex_state st = (case st of (a, b, c, d, e, f, g, h) \<Rightarrow>
     concat (map hex32 [a, b, c, d, e, f, g, h]))"

definition sha256_hexdigest :: "string \<Rightarrow> string" where
  "sha256_hexdigest s = hex_state (sha256 (utf8_encode s))"

subsection \<open>\<^verbatim>\<open>_generate_cache_key\<close>\<close>

fun is_dict :: "json \<Rightarrow> bool" where
  "is_dict (JDict kvs) = True"
| "is_dict _ = False"

text \<open>
  The text that is hashed.  A dict is sorted and dumped with sorted keys; a list or a
  tuple is dumped with sorted keys when one of its elements is a dict; a string is
  taken as it is; anything else is dumped, and \<^verbatim>\<open>str(data)\<close> stands in when that
  raises.  In the first two branches the \<^verbatim>\<open>TypeError\<close> of \<^verbatim>\<open>json.dumps\<close> is not caught.
\<close>

fun key_text :: "json \<Rightarrow> exn + string" where
  "key_text (JDict kvs) = json_dumps True (sort_dict_recursive (JDict kvs))"
| "key_text (JList xs) = json_dumps (list_ex is_dict xs) (JList xs)"
| "key_text (JTuple xs) = json_dumps (list_ex is_dict xs) (JTuple xs)"
| "key_text (JStr s) = Inr s"
| "key_text (JOpaque s) = Inr s"
| "key_text data = json_dumps False data"

definition generate_cache_key :: "json \<Rightarrow> exn + string" where
  "generate_cache_key data =
     (case key_text data of
        Inl e \<Rightarrow> Inl e
      | Inr serialized \<Rightarrow> Inr (''cache:'' @ sha256_hexdigest serialized))"

subsection \<open>What a value says when the order of keys is forgotten\<close>

text \<open>
  Two values are equal as sets of key/value pairs, at every level of nesting, when
  they have the same \<open>content\<close>: a dict is read as the finite set of its pairs, and
  the values inside are read the same way.
\<close>

datatype jcontent =
    CNull
  | CBool bool
  | CInt int
  | CFloat string
  | CStr string
  | CList "jcontent list"
  | CTuple "jcontent list"
  | CDict "(string \<times> jcontent) fset"
  | COpaque string

fun content :: "json \<Rightarrow> jcontent" where
  "content JNull = CNull"
| "content (JBool b) = CBool b"
| "content (JInt i) = CInt i"
| "content (JFloat t) = CFloat t"
| "content (JStr s) = CStr s"
| "content (JList xs) = CList (map content xs)"
| "content (JTuple xs) = CTuple (map content xs)"
| "content (JDict kvs) = CDict (fset_of_list (map (\<lambda>kv. (fst kv, content (snd kv))) kvs))"
| "content (JOpaque s) = COpaque s"

section \<open>\<^verbatim>\<open>json.loads\<close>\<close>

text \<open>
  The decoder of the standard library, as \<^verbatim>\<open>json.loads\<close> runs it on a \<^verbatim>\<open>str\<close>: white
  space is blank, tab, line feed and carriage return; a string ends at the first
  unescaped quote and holds no raw control character; an escape is one of
  \<^verbatim>\<open>" \ / b f n r t\<close> or \<^verbatim>\<open>u\<close> with four hexadecimal digits; a number is
  \<^verbatim>\<open>(-?(?:0|[1-9]\d*))(\.\d+)?([eE][-+]?\d+)?\<close>, an \<^verbatim>\<open>int\<close> when it has neither fraction nor
  exponent and a \<^verbatim>\<open>float\<close> otherwise; \<^verbatim>\<open>NaN\<close>, \<^verbatim>\<open>Infinity\<close> and \<^verbatim>\<open>-Infinity\<close> are floats;
  a repeated key of an object keeps its first position and its last value.  \<open>None\<close> is
  \<^verbatim>\<open>JSONDecodeError\<close>.  A float is returned as the literal that was read: this is the
  float that Python returns whenever the literal was written by \<^verbatim>\<open>json.dumps\<close>, which
  prints a float in the one way that reads back as the same float.  One kind of text
  lies outside the model and is answered \<open>None\<close> as well: a \<^verbatim>\<open>\u\<close> escape above \<^verbatim>\<open>00ff\<close>.
  The fuel of the scanner is the length of the text, and every step consumes a
  character.
\<close>

definition is_ws :: "char \<Rightarrow> bool" where
  "is_ws c = (c = CHR '' '' \<or> c = CHR 0x09 \<or> c = CHR 0x0A \<or> c = CHR 0x0D)"

definition skip_ws :: "string \<Rightarrow> string" where
  "skip_ws s = dropWhile is_ws s"

definition is_digit :: "char \<Rightarrow> bool" where
  "is_digit c = (48 \<le> (of_char c :: nat) \<and> (of_char c :: nat) \<le> 57)"

definition hex_value :: "char \<Rightarrow> nat option" where
  "hex_value c =
     (let n = (of_char c :: nat)
      in if 48 \<le> n \<and> n \<le> 57 then Some (n - 48)
         else if 97 \<le> n \<and> n \<le> 102 then Some (n - 87)
         else if 65 \<le> n \<and> n \<le> 70 then Some (n - 55)
         else None)"

definition hex4 :: "char \<Rightarrow> char \<Rightarrow> char \<Rightarrow> char \<Rightarrow> nat option" where
  "hex4 a b c d =
     (case (hex_value a, hex_value b, hex_value c, hex_value d) of
        (Some w, Some x, Some y, Some z) \<Rightarrow> Some (((w * 16 + x) * 16 + y) * 16 + z)
      | _ \<Rightarrow> None)"

definition unescape :: "char \<Rightarrow> char option" where
  "unescape e =
     (if e = CHR 0x22 then Some (CHR 0x22)
      else if e = CHR 0x5C then Some (CHR 0x5C)
      else if e = CHR ''/'' then Some (CHR ''/'')
      else if e = CHR ''b'' then Some (CHR 0x08)
      else if e = CHR ''f'' then Some (CHR 0x0C)
      else if e = CHR ''n'' then Some (CHR 0x0A)
      else if e = CHR ''r'' then Some (CHR 0x0D)
      else if e = CHR ''t'' then Some (CHR 0x09)
      else None)"

definition cons_fst :: "'a \<Rightarrow> ('a list \<times> 'b) option \<Rightarrow> ('a list \<times> 'b) option" where
  "cons_fst x r = (case r of None \<Rightarrow> None | Some (xs, rest) \<Rightarrow> Some (x # xs, rest))"

text \<open>\<^verbatim>\<open>scanstring\<close>, entered after the opening quote.\<close>

fun scan_string :: "string \<Rightarrow> (string \<times> string) option"
  and scan_escape :: "string \<Rightarrow> (string \<times> string) option"
where
  "scan_string [] = None"
| "scan_string (c # cs) =
     (if c = CHR 0x22 then Some ([], cs)
      else if c = CHR 0x5C then scan_escape cs
      else if (of_char c :: nat) < 32 then None
      else cons_fst c (scan_string cs))"
| "scan_escape [] = None"
| "scan_escape (e # cs) =
     (if e = CHR ''u'' then
        (case cs of
           h1 # h2 # h3 # h4 # cs' \<Rightarrow>
             (case hex4 h1 h2 h3 h4 of
                None \<Rightarrow> None
              | Some n \<Rightarrow> if n < 256 then cons_fst (char_of n) (scan_string cs') else None)
         | _ \<Rightarrow> None)
      else (case unescape e of
              None \<Rightarrow> None
            | Some ch \<Rightarrow> cons_fst ch (scan_string cs)))"

definition digits_value :: "string \<Rightarrow> nat" where
  "digits_value ds = foldl (\<lambda>acc c. acc * 10 + ((of_char c :: nat) - 48)) 0 ds"

text \<open>The integer part of a number, \<^verbatim>\<open>0|[1-9][0-9]*\<close>.\<close>

definition int_part :: "string \<Rightarrow> string" where
  "int_part s = (case s of [] \<Rightarrow> [] | c # cs \<Rightarrow> if c = CHR ''0'' then [c] else takeWhile is_digit s)"

text \<open>The fraction \<^verbatim>\<open>(\.\d+)?\<close> and the exponent \<^verbatim>\<open>([eE][-+]?\d+)?\<close> at the head of a text.\<close>

definition frac_part :: "string \<Rightarrow> string" where
  "frac_part s =
     (case s of
        c # d # ds \<Rightarrow> if c = CHR ''.'' \<and> is_digit d then c # takeWhile is_digit (d # ds) else []
      | _ \<Rightarrow> [])"

definition exp_part :: "string \<Rightarrow> string" where
  "exp_part s =
     (case s of
        c # d # ds \<Rightarrow>
          if c = CHR ''e'' \<or> c = CHR ''E'' then
            (if is_digit d then c # takeWhile is_digit (d # ds)
             else if (d = CHR ''+'' \<or> d = CHR ''-'') \<and> (case ds of [] \<Rightarrow> False | x # _ \<Rightarrow> is_digit x)
             then c # d # takeWhile is_digit ds
             else [])
          else []
      | _ \<Rightarrow> [])"

definition scan_number :: "string \<Rightarrow> (json \<times> string) option" where
  "scan_number s =
     (let neg = (case s of [] \<Rightarrow> False | c # _ \<Rightarrow> c = CHR ''-'');
          r = (if neg then tl s else s);
          ds = int_part r;
          r1 = drop (length ds) r;
          fr = frac_part r1;
          r2 = drop (length fr) r1;
          ex = exp_part r2;
          r3 = drop (length ex) r2
      in if ds = [] then None
         else if fr = [] \<and> ex = [] then
           Some (JInt (if neg then - int (digits_value ds) else int (digits_value ds)), r1)
         else Some (JFloat ((if neg then ''-'' else []) @ ds @ fr @ ex), r3))"

text \<open>The three constants that the scanner tries when no number matches.\<close>

definition scan_constant :: "string \<Rightarrow> (json \<times> string) option" where
  "scan_constant s =
     (if take 3 s = ''NaN'' then Some (JFloat ''NaN'', drop 3 s)
      else if take 8 s = ''Infinity'' then Some (JFloat ''Infinity'', drop 8 s)
      else if take 9 s = ''-Infinity'' then Some (JFloat ''-Infinity'', drop 9 s)
      else None)"

definition starts_with :: "string \<Rightarrow> string \<Rightarrow> bool" where
  "starts_with p s = (take (length p) s = p)"

text \<open>\<^verbatim>\<open>d[k] = v\<close>: a key already there keeps its place, a new key goes last.\<close>

fun dict_set :: "(string \<times> json) list \<Rightarrow> string \<Rightarrow> json \<Rightarrow> (string \<times> json) list" where
  "dict_set [] k v = [(k, v)]"
| "dict_set ((k', v') # kvs) k v =
     (if k' = k then (k, v) # kvs else (k', v') # dict_set kvs k v)"

definition dict_of_pairs :: "(string \<times> json) list \<Rightarrow> (string \<times> json) list" where
  "dict_of_pairs ps = foldl (\<lambda>d kv. dict_set d (fst kv) (snd kv)) [] ps"

fun scan_once :: "nat \<Rightarrow> string \<Rightarrow> (json \<times> string) option"
  and scan_array :: "nat \<Rightarrow> string \<Rightarrow> (json list \<times> string) option"
  and scan_object :: "nat \<Rightarrow> string \<Rightarrow> ((string \<times> json) list \<times> string) option"
where
  "scan_once 0 s = None"
| "scan_once (Suc n) [] = None"
| "scan_once (Suc n) (c # cs) =
     (if c = CHR 0x22 then
        (case scan_string cs of None \<Rightarrow> None | Some (x, r) \<Rightarrow> Some (JStr x, r))
      else if c = CHR ''{'' then
        (case skip_ws cs of
           [] \<Rightarrow> None
         | d # r \<Rightarrow>
             if d = CHR ''}'' then Some (JDict [], r)
             else (case scan_object n (d # r) of
                     None \<Rightarrow> None
                   | Some (ps, r') \<Rightarrow> Some (JDict (dict_of_pairs ps), r')))
      else if c = CHR ''['' then
        (case skip_ws cs of
           [] \<Rightarrow> None
         | d # r \<Rightarrow>
             if d = CHR '']'' then Some (JList [], r)
             else (case scan_array n (d # r) of
                     None \<Rightarrow> None
                   | Some (xs, r') \<Rightarrow> Some (JList xs, r')))
      else if starts_with ''null'' (c # cs) then Some (JNull, drop 4 (c # cs))
      else if starts_with ''true'' (c # cs) then Some (JBool True, drop 4 (c # cs))
      else if starts_with ''false'' (c # cs) then Some (JBool False, drop 5 (c # cs))
      else (case scan_number (c # cs) of
              Some r \<Rightarrow> Some r
            | None \<Rightarrow> scan_constant (c # cs)))"
| "scan_array 0 s = None"
| "scan_array (Suc n) s =
     (case scan_once n s of
        None \<Rightarrow> None
      | Some (v, r) \<Rightarrow>
          (case skip_ws r of
             [] \<Rightarrow> None
           | d # r' \<Rightarrow>
               if d = CHR '']'' then Some ([v], r')
               else if d = CHR '','' then cons_fst v (scan_array n (skip_ws r'))
               else None))"
| "scan_object 0 s = None"
| "scan_object (Suc n) [] = None"
| "scan_object (Suc n) (q # cs) =
     (if q \<noteq> CHR 0x22 then None
      else (case scan_string cs of
              None \<Rightarrow> None
            | Some (k, r) \<Rightarrow>
                (case skip_ws r of
                   [] \<Rightarrow> None
                 | d # r' \<Rightarrow>
                     if d \<noteq> CHR '':'' then None
                     else (case scan_once n (skip_ws r') of
                             None \<Rightarrow> None
                           | Some (v, r'') \<Rightarrow>
                               (case skip_ws r'' of
                                  [] \<Rightarrow> None
                                | e # r3 \<Rightarrow>
                                    if e = CHR ''}'' then Some ([(k, v)], r3)
                                    else if e = CHR '','' then cons_fst (k, v) (scan_object n (skip_ws r3))
                                    else None)))))"

definition json_loads :: "string \<Rightarrow> json option" where
  "json_loads s =
     (case scan_once (length s) (skip_ws s) of
        None \<Rightarrow> None
      | Some (v, r) \<Rightarrow> if skip_ws r = [] then Some v else None)"

text \<open>The texts that \<^verbatim>\<open>json.loads\<close> reads as one float.\<close>

definition float_literal :: "string \<Rightarrow> bool" where
  "float_literal t =
     (t = ''NaN'' \<or> t = ''Infinity'' \<or> t = ''-Infinity'' \<or> scan_number t = Some (JFloat t, []))"

section \<open>The process state and the Redis client\<close>

text \<open>
  Everything the module reads and writes: the two fields of \<^verbatim>\<open>cache_config\<close> that the
  operations use, whether \<^verbatim>\<open>REDIS_URL\<close> is set, the global \<^verbatim>\<open>redis_client\<close> (\<open>True\<close> when
  it holds a client), the keys of the Redis server with their values and remaining
  times to live (\<open>None\<close> for a key that never expires), and the float that
  \<^verbatim>\<open>time.time()\<close> returns, as \<^verbatim>\<open>json.dumps\<close> writes it.  \<open>faults\<close> is the
  script of the network: the next call that reaches the server takes the head of the
  list and raises it when it is an exception; an empty list means that no call fails.
  \<open>sleeps\<close> records the arguments of \<^verbatim>\<open>time.sleep\<close>.
\<close>

record world =
  cfg_enabled :: bool
  cfg_expiration :: int
  redis_url_set :: bool
  redis_client :: bool
  db :: "string \<Rightarrow> (string \<times> int option) option"
  faults :: "exn option list"
  sleeps :: "real list"
  clock :: string

type_synonym 'a io = "world \<Rightarrow> (exn + 'a) \<times> world"

definition ret :: "'a \<Rightarrow> 'a io" where
  "ret x w = (Inr x, w)"

definition raise :: "exn \<Rightarrow> 'a io" where
  "raise e w = (Inl e, w)"

definition bind :: "'a io \<Rightarrow> ('a \<Rightarrow> 'b io) \<Rightarrow> 'b io" where
  "bind m f w = (case m w of (Inl e, w') \<Rightarrow> (Inl e, w') | (Inr x, w') \<Rightarrow> f x w')"

text \<open>\<^verbatim>\<open>try: m except Exception as e: h(e)\<close>; what \<open>m\<close> did to the state stays done.\<close>

definition try_except :: "'a io \<Rightarrow> (exn \<Rightarrow> 'a io) \<Rightarrow> 'a io" where
  "try_except m h w = (case m w of (Inl e, w') \<Rightarrow> h e w' | (Inr x, w') \<Rightarrow> (Inr x, w'))"

definition gets :: "(world \<Rightarrow> 'a) \<Rightarrow> 'a io" where
  "gets f w = (Inr (f w), w)"

definition lift :: "exn + 'a \<Rightarrow> 'a io" where
  "lift r w = (r, w)"

text \<open>One round trip to the server.\<close>

definition server_call :: "unit io" where
  "server_call w =
     (case faults w of
        [] \<Rightarrow> (Inr (), w)
      | None # fs \<Rightarrow> (Inr (), w\<lparr>faults := fs\<rparr>)
      | Some e # fs \<Rightarrow> (Inl e, w\<lparr>faults := fs\<rparr>))"

definition redis_get :: "string \<Rightarrow> string option io" where
  "redis_get k = bind server_call (\<lambda>_. gets (\<lambda>w. map_option fst (db w k)))"

text \<open>\<^verbatim>\<open>TTL\<close>: -2 for a key that is not there, -1 for a key without expiry.\<close>

definition redis_ttl :: "string \<Rightarrow> int io" where
  "redis_ttl k =
     bind server_call (\<lambda>_. gets (\<lambda>w.
       case db w k of None \<Rightarrow> - 2 | Some (v, None) \<Rightarrow> - 1 | Some (v, Some t) \<Rightarrow> t))"

text \<open>\<^verbatim>\<open>EXPIRE\<close>: a time that is not positive deletes the key.\<close>

definition redis_expire :: "string \<Rightarrow> int \<Rightarrow> bool io" where
  "redis_expire k t =
     bind server_call (\<lambda>_ w.
       case db w k of
         None \<Rightarrow> (Inr False, w)
       | Some (v, old) \<Rightarrow>
           if t \<le> 0 then (Inr True, w\<lparr>db := (db w)(k := None)\<rparr>)
           else (Inr True, w\<lparr>db := (db w)(k \<mapsto> (v, Some t))\<rparr>))"

text \<open>\<^verbatim>\<open>SETEX\<close>: the server refuses a time that is not positive.\<close>

definition redis_setex :: "string \<Rightarrow> int \<Rightarrow> string \<Rightarrow> unit io" where
  "redis_setex k t v =
     bind server_call (\<lambda>_ w.
       if t \<le> 0 then (Inl ResponseError, w)
       else (Inr (), w\<lparr>db := (db w)(k \<mapsto> (v, Some t))\<rparr>))"

subsection \<open>\<^verbatim>\<open>get_redis_client\<close>\<close>

definition max_retries :: nat where
  "max_retries = 3"

definition retry_delay :: real where
  "retry_delay = 1"

text \<open>
  The body of \<^verbatim>\<open>for attempt in range(max_retries)\<close>.  \<^verbatim>\<open>redis.from_url\<close> assigns the global
  before \<^verbatim>\<open>ping\<close> reaches the server.  A \<^verbatim>\<open>redis.exceptions.ConnectionError\<close> is retried
  after a sleep unless the attempt is the last one; any other exception ends the loop
  at once.  Both ways out reset the global and raise the builtin \<^verbatim>\<open>ConnectionError\<close>.
\<close>

fun connect_loop :: "nat list \<Rightarrow> bool io" where
  "connect_loop [] w = (Inr (redis_client w), w)"
| "connect_loop (attempt # rest) w =
     (case server_call (w\<lparr>redis_client := True\<rparr>) of
        (Inr u, w') \<Rightarrow> (Inr True, w')
      | (Inl RedisConnectionError, w') \<Rightarrow>
          if attempt < max_retries - 1
          then connect_loop rest (w'\<lparr>sleeps := sleeps w' @ [retry_delay * 2 ^ attempt]\<rparr>)
          else (Inl ConnectionError, w'\<lparr>redis_client := False\<rparr>)
      | (Inl e, w') \<Rightarrow> (Inl ConnectionError, w'\<lparr>redis_client := False\<rparr>))"

definition get_redis_client :: "bool io" where
  "get_redis_client w =
     (if \<not> redis_client w then
        (if \<not> redis_url_set w then (Inl ValueError, w)
         else connect_loop [0..<max_retries] w)
      else (Inr (redis_client w), w))"

subsection \<open>The entry store\<close>

text \<open>
  \<^verbatim>\<open>data_dict.get("request_count", 0)\<close>: only a dict has \<^verbatim>\<open>get\<close>.
\<close>

fun dict_get_default :: "json \<Rightarrow> string \<Rightarrow> json \<Rightarrow> exn + json" where
  "dict_get_default (JDict kvs) k d = Inr (case map_of kvs k of None \<Rightarrow> d | Some v \<Rightarrow> v)"
| "dict_get_default _ k d = Inl AttributeError"

text \<open>
  \<^verbatim>\<open>current_count + 1\<close>: an \<^verbatim>\<open>int\<close> or a \<^verbatim>\<open>bool\<close> can be added to; a string, a list, a dict and
  \<^verbatim>\<open>None\<close> cannot.  The module writes the count as an \<^verbatim>\<open>int\<close>.  A count that some other writer
  has stored as a float lies outside the model, which does no float arithmetic on JSON
  values, and is answered like the values that cannot be added to.
\<close>

fun py_add_one :: "json \<Rightarrow> exn + json" where
  "py_add_one (JInt n) = Inr (JInt (n + 1))"
| "py_add_one (JBool b) = Inr (JInt ((if b then 1 else 0) + 1))"
| "py_add_one _ = Inl TypeError"

fun dict_setitem :: "json \<Rightarrow> string \<Rightarrow> json \<Rightarrow> exn + json" where
  "dict_setitem (JDict kvs) k v = Inr (JDict (dict_set kvs k v))"
| "dict_setitem _ k v = Inl TypeError"

text \<open>\<^verbatim>\<open>if not s\<close> on the answer of \<^verbatim>\<open>GET\<close>: \<^verbatim>\<open>None\<close> and the empty string are both false.\<close>

definition falsy :: "string option \<Rightarrow> bool" where
  "falsy r = (case r of None \<Rightarrow> True | Some s \<Rightarrow> s = [])"

text \<open>
  Each of the three operations is one \<^verbatim>\<open>try\<close> statement whose handlers all return the
  same value.  The statements inside the \<^verbatim>\<open>try\<close> are given first, the operation after
  them.
\<close>

definition increment_request_count_try :: "string \<Rightarrow> json io" where
  "increment_request_count_try cache_key =
     bind get_redis_client (\<lambda>client.
       if \<not> client then ret JNull
       else bind (redis_get cache_key) (\<lambda>current_data.
         if falsy current_data then ret JNull
         else (case json_loads (the current_data) of
                 None \<Rightarrow> ret JNull
               | Some data_dict \<Rightarrow>
                   bind (lift (dict_get_default data_dict ''request_count'' (JInt 0))) (\<lambda>current_count.
                   bind (lift (py_add_one current_count)) (\<lambda>new_count.
                   bind (lift (dict_setitem data_dict ''request_count'' new_count)) (\<lambda>data_dict'.
                   bind (redis_ttl cache_key) (\<lambda>ttl.
                   bind (if ttl > 0 then
                           bind (gets cfg_expiration) (\<lambda>expiration.
                           bind (redis_expire cache_key (max ttl expiration)) (\<lambda>_.
                           bind (lift (json_dumps False data_dict')) (\<lambda>text.
                           redis_setex cache_key ttl text)))
                         else ret ()) (\<lambda>_.
                   ret new_count))))))))"

definition increment_request_count :: "string \<Rightarrow> json io" where
  "increment_request_count cache_key =
     try_except (increment_request_count_try cache_key)
       (\<lambda>e. case e of RedisConnectionError \<Rightarrow> ret JNull | _ \<Rightarrow> ret JNull)"

definition get_cached_data_by_key_try :: "string \<Rightarrow> json io" where
  "get_cached_data_by_key_try cache_key =
     bind get_redis_client (\<lambda>client.
       if \<not> client then ret JNull
       else bind (redis_get cache_key) (\<lambda>cached_result.
         if falsy cached_result then ret JNull
         else (case json_loads (the cached_result) of
                 None \<Rightarrow> ret JNull
               | Some data \<Rightarrow>
                   bind (increment_request_count cache_key) (\<lambda>_. ret data))))"

definition get_cached_data_by_key :: "string \<Rightarrow> json io" where
  "get_cached_data_by_key cache_key =
     bind (gets cfg_enabled) (\<lambda>enabled.
       if \<not> enabled then ret JNull
       else try_except (get_cached_data_by_key_try cache_key)
              (\<lambda>e. case e of RedisConnectionError \<Rightarrow> ret JNull | _ \<Rightarrow> ret JNull))"

definition get_cached_data :: "(string \<times> json) list \<Rightarrow> string \<Rightarrow> json io" where
  "get_cached_data cache_params analysis_type =
     bind (gets cfg_enabled) (\<lambda>enabled.
       if \<not> enabled then ret JNull
       else bind (lift (generate_cache_key (JDict cache_params))) (\<lambda>cache_key.
              get_cached_data_by_key cache_key))"

definition store_data_with_key_try :: "string \<Rightarrow> json \<Rightarrow> int option \<Rightarrow> bool io" where
  "store_data_with_key_try cache_key data expiration =
     bind get_redis_client (\<lambda>client.
       if \<not> client then ret False
       else bind (gets clock) (\<lambda>now.
         case json_dumps False
                (JDict [(''data'', data), (''cached_at'', JFloat now), (''request_count'', JInt 1)]) of
           Inl e \<Rightarrow> ret False
         | Inr serialized_data \<Rightarrow>
             bind (gets cfg_expiration) (\<lambda>dflt.
             bind (redis_setex cache_key (case expiration of None \<Rightarrow> dflt | Some t \<Rightarrow> t) serialized_data) (\<lambda>_.
             ret True))))"

definition store_data_with_key :: "string \<Rightarrow> json \<Rightarrow> int option \<Rightarrow> bool io" where
  "store_data_with_key cache_key data expiration =
     bind (gets cfg_enabled) (\<lambda>enabled.
       if \<not> enabled then ret False
       else try_except (store_data_with_key_try cache_key data expiration)
              (\<lambda>e. case e of RedisConnectionError \<Rightarrow> ret False | _ \<Rightarrow> ret False))"

definition store_data :: "(string \<times> json) list \<Rightarrow> string \<Rightarrow> int option \<Rightarrow> string option io" where
  "store_data data analysis_type expiration =
     bind (gets cfg_enabled) (\<lambda>enabled.
       if \<not> enabled then ret None
       else try_except
         (bind (lift (generate_cache_key
                        (JDict (if analysis_type \<noteq> [] then dict_set data ''_type'' (JStr analysis_type)
                                else data)))) (\<lambda>cache_key.
          bind (store_data_with_key cache_key (JDict data) expiration) (\<lambda>success.
          ret (if success then Some cache_key else None))))
         (\<lambda>e. ret None))"

section \<open>Floating-point times\<close>

text \<open>
  \<^verbatim>\<open>time.time()\<close> and \<^verbatim>\<open>os.path.getmtime\<close> return finite IEEE 754 doubles.  Such a double is
  a pair \<open>(m, e)\<close> that stands for \<open>m * 2 ^ e\<close>, with \<open>\<bar>m\<bar> < 2 ^ 53\<close> and
  \<open>- 1074 \<le> e \<le> 971\<close>.
\<close>

type_synonym float = "int \<times> int"

definition float_val :: "float \<Rightarrow> real" where
  "float_val x =
     (case x of (m, e) \<Rightarrow> if 0 \<le> e then of_int (m * 2 ^ nat e) else of_int m / 2 ^ nat (- e))"

text \<open>\<^verbatim>\<open>int.bit_length\<close>: the number of bits of the absolute value.\<close>

function bit_length :: "int \<Rightarrow> nat" where
  "bit_length n = (if n = 0 then 0 else Suc (bit_length (\<bar>n\<bar> div 2)))"
  by pat_completeness auto

termination
  by (relation "measure (\<lambda>n. nat \<bar>n\<bar>)") auto

declare bit_length.simps [simp del]

text \<open>\<open>m / 2 ^ k\<close> rounded to the nearest integer, a tie to the even one.\<close>

definition round_half_even :: "int \<Rightarrow> nat \<Rightarrow> int" where
  "round_half_even m k =
     (let q = m div 2 ^ k; r = m mod 2 ^ k
      in if 2 * r > 2 ^ k then q + 1
         else if 2 * r < 2 ^ k then q
         else if even q then q else q + 1)"

text \<open>
  \<^verbatim>\<open>x - y\<close> on doubles: the exact difference, rounded to 53 significant bits in the
  default rounding mode.  A result of magnitude \<open>2 ^ 1024\<close> or more stands for the
  infinity that the subtraction returns (Python raises nothing there).
\<close>

definition float_sub :: "float \<Rightarrow> float \<Rightarrow> float" where
  "float_sub x y =
     (case x of (m1, e1) \<Rightarrow> case y of (m2, e2) \<Rightarrow>
        let e0 = min e1 e2;
            m = m1 * 2 ^ nat (e1 - e0) - m2 * 2 ^ nat (e2 - e0);
            k = bit_length m - 53
        in if 0 < k then (round_half_even m k, e0 + int k) else (m, e0))"

text \<open>\<^verbatim>\<open>x > s\<close> for a double \<open>x\<close> and an \<^verbatim>\<open>int\<close> \<open>s\<close>: Python compares the exact values.\<close>

definition float_gt_int :: "float \<Rightarrow> int \<Rightarrow> bool" where
  "float_gt_int x s =
     (case x of (m, e) \<Rightarrow>
        if 0 \<le> e then (if 2 ^ 1024 \<le> \<bar>m\<bar> * 2 ^ nat e then 0 < m else s < m * 2 ^ nat e)
        else s * 2 ^ nat (- e) < m)"

section \<open>The file cache: \<^verbatim>\<open>clean_expired_files\<close>\<close>

text \<open>
  An entry of \<^verbatim>\<open>CACHE_DIR\<close> as the sweep sees it: its name, whether \<^verbatim>\<open>os.path.isdir\<close> holds,
  its modification time, and whether \<^verbatim>\<open>os.path.getmtime\<close> or \<^verbatim>\<open>os.remove\<close> raise on it.
\<close>

record file_entry =
  fname :: string
  is_dir :: bool
  mtime :: float
  getmtime_fails :: bool
  remove_fails :: bool

record cache_dir =
  entries :: "file_entry list"
  makedirs_fails :: bool
  listdir_fails :: bool

text \<open>\<^verbatim>\<open>file_age = now - os.path.getmtime(file_path)\<close> and \<^verbatim>\<open>file_age > max_age_seconds\<close>.\<close>

definition file_age :: "float \<Rightarrow> file_entry \<Rightarrow> float" where
  "file_age now f = float_sub now (mtime f)"

definition expired :: "float \<Rightarrow> int \<Rightarrow> file_entry \<Rightarrow> bool" where
  "expired now max_age_seconds f = float_gt_int (file_age now f) max_age_seconds"

text \<open>
  The \<^verbatim>\<open>for\<close> loop.  It returns the exception that ended it, if any, the count at that
  point, and the entries left in the directory.
\<close>

fun sweep :: "float \<Rightarrow> int \<Rightarrow> file_entry list \<Rightarrow> nat \<Rightarrow> (exn option \<times> nat) \<times> file_entry list" where
  "sweep now max_age_seconds [] removed_count = ((None, removed_count), [])"
| "sweep now max_age_seconds (f # fs) removed_count =
     (if is_dir f then
        (case sweep now max_age_seconds fs removed_count of (r, left) \<Rightarrow> (r, f # left))
      else if getmtime_fails f then ((Some OSError, removed_count), f # fs)
      else if expired now max_age_seconds f then
        (if remove_fails f then ((Some OSError, removed_count), f # fs)
         else sweep now max_age_seconds fs (removed_count + 1))
      else (case sweep now max_age_seconds fs removed_count of (r, left) \<Rightarrow> (r, f # left)))"

text \<open>
  \<^verbatim>\<open>ensure_cache_dir_exists\<close> is outside the \<^verbatim>\<open>try\<close> and re-raises; the \<^verbatim>\<open>except\<close> around the
  loop returns the count reached when the exception came.
\<close>

definition clean_expired_files :: "int \<Rightarrow> float \<Rightarrow> cache_dir \<Rightarrow> (exn + nat) \<times> cache_dir" where
  "clean_expired_files max_age_days now d =
     (if makedirs_fails d then (Inl OSError, d)
      else if listdir_fails d then (Inr 0, d)
      else (case sweep now (max_age_days * 86400) (entries d) 0 of
              ((e, removed_count), left) \<Rightarrow> (Inr removed_count, d\<lparr>entries := left\<rparr>)))"

section \<open>States and directories used in the examples\<close>

text \<open>
  A process that has not connected yet, with the default configuration, an empty server
  and a network that does not fail.
\<close>

definition fresh_world :: world where
  "fresh_world =
     \<lparr>cfg_enabled = True, cfg_expiration = 604800, redis_url_set = True, redis_client = False,
      db = Map.empty, faults = [], sleeps = [], clock = ''1700000000.25''\<rparr>"

text \<open>
  What the sweep does with one entry, as the loop body reads: it raises on a regular file
  whose modification time cannot be read, or that is expired and cannot be removed; it
  removes a regular file that is expired.
\<close>

definition sweep_raises :: "float \<Rightarrow> int \<Rightarrow> file_entry \<Rightarrow> bool" where
  "sweep_raises now s f =
     (\<not> is_dir f \<and> (getmtime_fails f \<or> (expired now s f \<and> remove_fails f)))"

definition sweep_removes :: "float \<Rightarrow> int \<Rightarrow> file_entry \<Rightarrow> bool" where
  "sweep_removes now s f = (\<not> is_dir f \<and> expired now s f)"

definition old_file :: file_entry where
  "old_file = \<lparr>fname = ''a.tif'', is_dir = False, mtime = (0, 0), getmtime_fails = False, remove_fails = False\<rparr>"

definition edge_file :: file_entry where
  "edge_file = old_file\<lparr>fname := ''edge.tif'', mtime := (395200, 0)\<rparr>"

definition tidy_dir :: cache_dir where
  "tidy_dir = \<lparr>entries = [old_file, edge_file], makedirs_fails = False, listdir_fails = False\<rparr>"

definition demo_dir :: cache_dir where
  "demo_dir =
     \<lparr>entries = [old_file\<lparr>fname := ''locked.tif'', remove_fails := True\<rparr>, old_file,
                 edge_file],
      makedirs_fails = False, listdir_fails = False\<rparr>"

text \<open>
  A directory in which an entry has vanished between \<^verbatim>\<open>os.listdir\<close> and
  \<^verbatim>\<open>os.path.getmtime\<close>.
\<close>

definition vanished_dir :: cache_dir where
  "vanished_dir =
     \<lparr>entries = [old_file, edge_file, old_file\<lparr>fname := ''gone.tif'', getmtime_fails := True\<rparr>,
                 old_file\<lparr>fname := ''b.tif''\<rparr>],
      makedirs_fails = False, listdir_fails = False\<rparr>"

section \<open>Key derivation is invariant under the order of keys\<close>

lemma sorted_keys_eq:
  fixes A B :: "(string \<times> json) list"
  assumes "distinct (map fst A)" "distinct (map fst B)" "fst ` set A = fst ` set B"
  shows "map fst (sort_key fst A) = map fst (sort_key fst B)"
proof -
  have d: "distinct (map fst (sort_key fst X))" if "distinct (map fst X)" for X :: "(string \<times> json) list"
  proof -
    have "mset (map fst (sort_key fst X)) = mset (map fst X)" by simp
    then show ?thesis using that by (metis distinct_count_atmost_1 set_mset_mset mset_eq_setD)
  qed
  have s: "sorted (map fst (sort_key fst X))" for X :: "(string \<times> json) list"
    by (rule sorted_sort_key)
  have "set (map fst (sort_key fst A)) = set (map fst (sort_key fst B))"
    using assms(3) by simp
  then show ?thesis
    using sorted_distinct_set_unique [OF s d [OF assms(1)] s d [OF assms(2)]] by blast
qed

lemma sorted_items_pointwise:
  assumes dA: "distinct (map fst A)" and dB: "distinct (map fst B)"
    and eq: "(\<lambda>kv. (fst kv, c (snd kv))) ` set A = (\<lambda>kv. (fst kv, c (snd kv))) ` set B"
  shows "length (sorted_items A) = length (sorted_items B) \<and>
         (\<forall>i < length (sorted_items A).
            sorted_items A ! i \<in> set A \<and> sorted_items B ! i \<in> set B \<and>
            fst (sorted_items A ! i) = fst (sorted_items B ! i) \<and>
            c (snd (sorted_items A ! i)) = c (snd (sorted_items B ! i)))"
proof -
  let ?f = "\<lambda>kv. (fst kv, c (snd kv))"
  have keys: "fst ` set A = fst ` set B"
  proof -
    have "fst ` set X = fst ` (?f ` set X)" for X :: "(string \<times> json) list"
      by (force simp: image_iff)
    then show ?thesis using eq by metis
  qed
  have m: "map fst (sorted_items A) = map fst (sorted_items B)"
    unfolding sorted_items_def by (rule sorted_keys_eq [OF dA dB keys])
  then have len: "length (sorted_items A) = length (sorted_items B)"
    by (metis length_map)
  have pt: "sorted_items A ! i \<in> set A \<and> sorted_items B ! i \<in> set B \<and>
            fst (sorted_items A ! i) = fst (sorted_items B ! i) \<and>
            c (snd (sorted_items A ! i)) = c (snd (sorted_items B ! i))"
    if i: "i < length (sorted_items A)" for i
  proof -
    let ?x = "sorted_items A ! i" and ?y = "sorted_items B ! i"
    have xA: "?x \<in> set A" using i by (metis nth_mem set_sorted_items)
    have yB: "?y \<in> set B" using i len by (metis nth_mem set_sorted_items)
    have k: "fst ?x = fst ?y" using m i len by (metis nth_map)
    from xA eq obtain z where z: "z \<in> set B" "?f z = ?f ?x" by (metis (no_types, lifting) imageE imageI)
    then have "fst z = fst ?y" using k by simp
    then have "z = ?y" using dB z(1) yB by (meson distinct_map inj_onD)
    then show ?thesis using xA yB k z(2) by simp
  qed
  show ?thesis using len pt by blast
qed


lemma distinct_keys_sorted_items:
  fixes X :: "(string \<times> json) list"
  assumes "distinct (map fst X)"
  shows "distinct (map fst (sorted_items X))"
proof -
  have "mset (map fst (sorted_items X)) = mset (map fst X)"
    by (simp add: sorted_items_def)
  then show ?thesis using assms by (metis distinct_count_atmost_1 set_mset_mset)
qed

lemma map_eq_pointwise:
  assumes "length as = length bs"
    and "\<And>n. n < length as \<Longrightarrow> F (as ! n) = G (bs ! n)"
  shows "map F as = map G bs"
  using assms by (simp add: list_eq_iff_nth_eq)

lemma fset_of_list_eq_iff: "fset_of_list xs = fset_of_list ys \<longleftrightarrow> set xs = set ys"
  by (metis fset_of_list.rep_eq fset_inject)

lemma content_dict_eq:
  "content (JDict A) = content (JDict B) \<longleftrightarrow>
     (\<lambda>kv. (fst kv, content (snd kv))) ` set A = (\<lambda>kv. (fst kv, content (snd kv))) ` set B"
  unfolding content.simps jcontent.inject fset_of_list_eq_iff set_map ..

lemma content_list_pointwise:
  assumes "map content xs = map content ys"
  shows "length xs = length ys \<and> (\<forall>i < length xs. content (xs ! i) = content (ys ! i))"
proof -
  have len: "length xs = length ys" using assms by (rule map_eq_imp_length_eq)
  moreover have "content (xs ! i) = content (ys ! i)" if "i < length xs" for i
    using assms that len by (metis nth_map)
  ultimately show ?thesis by blast
qed

lemma content_dumps_eq:
  "wf_json a \<Longrightarrow> wf_json b \<Longrightarrow> content a = content b \<Longrightarrow> dumps_text True a = dumps_text True b"
proof (induction a arbitrary: b rule: wf_json.induct)
  case (1 xs)
  from "1.prems"(3) obtain ys where b: "b = JList ys" by (cases b) auto
  from "1.prems"(3) b have "map content xs = map content ys" by simp
  from content_list_pointwise [OF this]
  have len: "length xs = length ys" and pt: "\<And>i. i < length xs \<Longrightarrow> content (xs ! i) = content (ys ! i)"
    by blast+
  have "map (dumps_text True) xs = map (dumps_text True) ys"
  proof (rule map_eq_pointwise [OF len])
    fix i assume i: "i < length xs"
    have "wf_json (xs ! i)" using "1.prems"(1) i by (simp add: list_all_length)
    moreover have "wf_json (ys ! i)" using "1.prems"(2) b i len by (simp add: list_all_length)
    ultimately show "dumps_text True (xs ! i) = dumps_text True (ys ! i)"
      using "1.IH" [of "xs ! i" "ys ! i"] pt [OF i] i by simp
  qed
  then show ?case using b by simp
next
  case (2 xs)
  from "2.prems"(3) obtain ys where b: "b = JTuple ys" by (cases b) auto
  from "2.prems"(3) b have "map content xs = map content ys" by simp
  from content_list_pointwise [OF this]
  have len: "length xs = length ys" and pt: "\<And>i. i < length xs \<Longrightarrow> content (xs ! i) = content (ys ! i)"
    by blast+
  have "map (dumps_text True) xs = map (dumps_text True) ys"
  proof (rule map_eq_pointwise [OF len])
    fix i assume i: "i < length xs"
    have "wf_json (xs ! i)" using "2.prems"(1) i by (simp add: list_all_length)
    moreover have "wf_json (ys ! i)" using "2.prems"(2) b i len by (simp add: list_all_length)
    ultimately show "dumps_text True (xs ! i) = dumps_text True (ys ! i)"
      using "2.IH" [of "xs ! i" "ys ! i"] pt [OF i] i by simp
  qed
  then show ?case using b by simp
next
  case (3 kvs)
  from "3.prems"(3) obtain kvs' where b: "b = JDict kvs'" by (cases b) auto
  let ?f = "\<lambda>kv. (fst kv, content (snd kv))"
  from "3.prems"(3) b have eq: "?f ` set kvs = ?f ` set kvs'"
    by (simp only: content_dict_eq)
  have dA: "distinct (map fst kvs)" using "3.prems"(1) by simp
  have dB: "distinct (map fst kvs')" using "3.prems"(2) b by simp
  have P: "length (sorted_items kvs) = length (sorted_items kvs') \<and>
         (\<forall>i < length (sorted_items kvs).
            sorted_items kvs ! i \<in> set kvs \<and> sorted_items kvs' ! i \<in> set kvs' \<and>
            fst (sorted_items kvs ! i) = fst (sorted_items kvs' ! i) \<and>
            content (snd (sorted_items kvs ! i)) = content (snd (sorted_items kvs' ! i)))"
    by (rule sorted_items_pointwise [OF dA dB eq])
  let ?g = "\<lambda>kv. encode_string (fst kv) @ '': '' @ dumps_text True (snd kv)"
  have "map ?g (sorted_items kvs) = map ?g (sorted_items kvs')"
  proof (rule map_eq_pointwise)
    show "length (sorted_items kvs) = length (sorted_items kvs')" using P by blast
  next
    fix i assume i: "i < length (sorted_items kvs)"
    let ?x = "sorted_items kvs ! i" and ?y = "sorted_items kvs' ! i"
    from P i have x: "?x \<in> set kvs" and y: "?y \<in> set kvs'" and k: "fst ?x = fst ?y"
      and c: "content (snd ?x) = content (snd ?y)" by blast+
    have "wf_json (snd ?x)" using "3.prems"(1) x by (simp add: list_all_iff)
    moreover have "wf_json (snd ?y)" using "3.prems"(2) b y by (simp add: list_all_iff)
    ultimately have "dumps_text True (snd ?x) = dumps_text True (snd ?y)"
      using "3.IH" [OF x] c by blast
    then show "?g ?x = ?g ?y" using k by simp
  qed
  then show ?case using b by (simp add: dict_items_def)
qed (case_tac [!] b, simp_all)

lemma content_serializable_eq:
  "content a = content b \<Longrightarrow> serializable a = serializable b"
proof (induction a arbitrary: b rule: serializable.induct)
  case (1 s)
  then show ?case by (cases b) auto
next
  case (2 xs)
  from "2.prems" obtain ys where b: "b = JList ys" by (cases b) auto
  from "2.prems" b have "map content xs = map content ys" by simp
  from content_list_pointwise [OF this]
  have len: "length xs = length ys" and pt: "\<And>i. i < length xs \<Longrightarrow> content (xs ! i) = content (ys ! i)"
    by blast+
  have "serializable (xs ! i) = serializable (ys ! i)" if "i < length xs" for i
    using "2.IH" [of "xs ! i" "ys ! i"] pt [OF that] that by simp
  then show ?case using b len by (simp add: list_all_length)
next
  case (3 xs)
  from "3.prems" obtain ys where b: "b = JTuple ys" by (cases b) auto
  from "3.prems" b have "map content xs = map content ys" by simp
  from content_list_pointwise [OF this]
  have len: "length xs = length ys" and pt: "\<And>i. i < length xs \<Longrightarrow> content (xs ! i) = content (ys ! i)"
    by blast+
  have "serializable (xs ! i) = serializable (ys ! i)" if "i < length xs" for i
    using "3.IH" [of "xs ! i" "ys ! i"] pt [OF that] that by simp
  then show ?case using b len by (simp add: list_all_length)
next
  case (4 kvs)
  from "4.prems" obtain kvs' where b: "b = JDict kvs'" by (cases b) auto
  let ?f = "\<lambda>kv. (fst kv, content (snd kv))"
  from "4.prems" b have eq: "?f ` set kvs = ?f ` set kvs'"
    by (simp only: content_dict_eq)
  have l: "\<exists>y \<in> set kvs'. serializable (snd x) = serializable (snd y)" if x: "x \<in> set kvs" for x
  proof -
    from x eq obtain y where "y \<in> set kvs'" "?f y = ?f x" by (metis (no_types, lifting) imageE imageI)
    then show ?thesis using "4.IH" [OF x, of "snd y"] by auto
  qed
  have r: "\<exists>x \<in> set kvs. serializable (snd x) = serializable (snd y)" if y: "y \<in> set kvs'" for y
  proof -
    from y eq obtain x where x: "x \<in> set kvs" "?f x = ?f y" by (metis (no_types, lifting) imageE imageI)
    then show ?thesis using "4.IH" [OF x(1), of "snd y"] by auto
  qed
  show ?case using b l r by (auto simp: list_all_iff)
qed (case_tac [!] b, simp_all)


lemma content_sort_dict_recursive: "content (sort_dict_recursive v) = content v"
proof (induction v rule: sort_dict_recursive.induct)
  case (1 kvs)
  let ?f = "\<lambda>kv. (fst kv, content (snd kv))"
  let ?h = "\<lambda>kv. (fst kv, sort_dict_recursive (snd kv))"
  have "map ?f (map ?h (sorted_items kvs)) = map ?f (sorted_items kvs)"
    using "1.IH" by simp
  then have "set (map ?f (map ?h (sorted_items kvs))) = set (map ?f kvs)"
    by (simp only: set_map set_sorted_items)
  then show ?case
    unfolding sort_dict_recursive.simps content.simps jcontent.inject fset_of_list_eq_iff .
next
  case (2 xs)
  then show ?case by simp
qed simp_all

lemma wf_sort_dict_recursive: "wf_json v \<Longrightarrow> wf_json (sort_dict_recursive v)"
proof (induction v rule: sort_dict_recursive.induct)
  case (1 kvs)
  have "distinct (map fst (sorted_items kvs))"
    using "1.prems" by (simp add: distinct_keys_sorted_items)
  moreover have "wf_json (sort_dict_recursive (snd kv))" if "kv \<in> set kvs" for kv
    using "1.IH" [of kv] "1.prems" that by (simp add: list_all_iff)
  ultimately show ?case by (simp add: list_all_iff comp_def)
next
  case (2 xs)
  then show ?case by (simp add: list_all_iff)
qed simp_all

lemma key_text_dict_content:
  assumes "wf_json (JDict A)" "wf_json (JDict B)" "content (JDict A) = content (JDict B)"
  shows "key_text (JDict A) = key_text (JDict B)"
proof -
  let ?a = "sort_dict_recursive (JDict A)" and ?b = "sort_dict_recursive (JDict B)"
  have c: "content ?a = content ?b"
    using assms(3) by (simp only: content_sort_dict_recursive)
  have "dumps_text True ?a = dumps_text True ?b"
    by (rule content_dumps_eq [OF wf_sort_dict_recursive [OF assms(1)] wf_sort_dict_recursive [OF assms(2)] c])
  moreover have "serializable ?a = serializable ?b"
    by (rule content_serializable_eq [OF c])
  ultimately show ?thesis
    by (simp only: key_text.simps json_dumps_def)
qed

lemma key_example_list1:
  "key_text (JList [JDict [(''b'', JInt 2), (''a'', JInt 1)]]) =
   key_text (JList [JDict [(''a'', JInt 1), (''b'', JInt 2)]])"
  by code_simp

lemma key_example_digest1:
  "generate_cache_key (JList [JDict [(''a'', JInt 1), (''b'', JInt 2)]]) =
   Inr ''cache:1176b831c374ed0092e7693816e78426e6bc740a1d927cac9ce57735e5d7a23f''"
proof -
  have T: "key_text (JList [JDict [(''a'', JInt 1), (''b'', JInt 2)]]) =
    Inr [CHR ''['', CHR ''{'', CHR 0x22, CHR ''a'', CHR 0x22, CHR '':'', CHR '' '', CHR ''1'', CHR '','', CHR '' '', CHR 0x22, CHR ''b'', CHR 0x22, CHR '':'', CHR '' '', CHR ''2'', CHR ''}'', CHR '']'']"
    by code_simp
  have B: "message_blocks (utf8_encode [CHR ''['', CHR ''{'', CHR 0x22, CHR ''a'', CHR 0x22, CHR '':'', CHR '' '', CHR ''1'', CHR '','', CHR '' '', CHR 0x22, CHR ''b'', CHR 0x22, CHR '':'', CHR '' '', CHR ''2'', CHR ''}'', CHR '']'']) =
    [[0x5b7b2261, 0x223a2031, 0x2c202262, 0x223a2032, 0x7d5d8000, 0x00000000, 0x00000000, 0x00000000, 0x00000000, 0x00000000, 0x00000000, 0x00000000, 0x00000000, 0x00000000, 0x00000000, 0x00000090]]"
    by code_simp
  have C: "compress H256 [0x5b7b2261, 0x223a2031, 0x2c202262, 0x223a2032, 0x7d5d8000, 0x00000000, 0x00000000, 0x00000000, 0x00000000, 0x00000000, 0x00000000, 0x00000000, 0x00000000, 0x00000000, 0x00000000, 0x00000090] =
    (0x1176b831, 0xc374ed00, 0x92e76938, 0x16e78426, 0xe6bc740a, 0x1d927cac, 0x9ce57735, 0xe5d7a23f)"
    by code_simp
  have D: "hex_state (0x1176b831, 0xc374ed00, 0x92e76938, 0x16e78426, 0xe6bc740a, 0x1d927cac, 0x9ce57735, 0xe5d7a23f) =
    ''1176b831c374ed0092e7693816e78426e6bc740a1d927cac9ce57735e5d7a23f''"
    by code_simp
  have E: "sha256_hexdigest [CHR ''['', CHR ''{'', CHR 0x22, CHR ''a'', CHR 0x22, CHR '':'', CHR '' '', CHR ''1'', CHR '','', CHR '' '', CHR 0x22, CHR ''b'', CHR 0x22, CHR '':'', CHR '' '', CHR ''2'', CHR ''}'', CHR '']''] =
    ''1176b831c374ed0092e7693816e78426e6bc740a1d927cac9ce57735e5d7a23f''"
    unfolding sha256_hexdigest_def sha256_def B by (simp add: C D)
  show ?thesis
    unfolding generate_cache_key_def T by (simp add: E)
qed

lemma key_example_digest2:
  "generate_cache_key (JList [JDict [(''a'', JInt 1), (''b'', JInt 2)], JDict [(''c'', JInt 3)]]) =
   Inr ''cache:076c47da7f946bbad08639ba63a0952ae2876b9991577fe6fa59558bbaf653c2''"
proof -
  have T: "key_text (JList [JDict [(''a'', JInt 1), (''b'', JInt 2)], JDict [(''c'', JInt 3)]]) =
    Inr [CHR ''['', CHR ''{'', CHR 0x22, CHR ''a'', CHR 0x22, CHR '':'', CHR '' '', CHR ''1'', CHR '','', CHR '' '', CHR 0x22, CHR ''b'', CHR 0x22, CHR '':'', CHR '' '', CHR ''2'', CHR ''}'', CHR '','', CHR '' '', CHR ''{'', CHR 0x22, CHR ''c'', CHR 0x22, CHR '':'', CHR '' '', CHR ''3'', CHR ''}'', CHR '']'']"
    by code_simp
  have B: "message_blocks (utf8_encode [CHR ''['', CHR ''{'', CHR 0x22, CHR ''a'', CHR 0x22, CHR '':'', CHR '' '', CHR ''1'', CHR '','', CHR '' '', CHR 0x22, CHR ''b'', CHR 0x22, CHR '':'', CHR '' '', CHR ''2'', CHR ''}'', CHR '','', CHR '' '', CHR ''{'', CHR 0x22, CHR ''c'', CHR 0x22, CHR '':'', CHR '' '', CHR ''3'', CHR ''}'', CHR '']'']) =
    [[0x5b7b2261, 0x223a2031, 0x2c202262, 0x223a2032, 0x7d2c207b, 0x2263223a, 0x20337d5d, 0x80000000, 0x00000000, 0x00000000, 0x00000000, 0x00000000, 0x00000000, 0x00000000, 0x00000000, 0x000000e0]]"
    by code_simp
  have C: "compress H256 [0x5b7b2261, 0x223a2031, 0x2c202262, 0x223a2032, 0x7d2c207b, 0x2263223a, 0x20337d5d, 0x80000000, 0x00000000, 0x00000000, 0x00000000, 0x00000000, 0x00000000, 0x00000000, 0x00000000, 0x000000e0] =
    (0x076c47da, 0x7f946bba, 0xd08639ba, 0x63a0952a, 0xe2876b99, 0x91577fe6, 0xfa59558b, 0xbaf653c2)"
    by code_simp
  have D: "hex_state (0x076c47da, 0x7f946bba, 0xd08639ba, 0x63a0952a, 0xe2876b99, 0x91577fe6, 0xfa59558b, 0xbaf653c2) =
    ''076c47da7f946bbad08639ba63a0952ae2876b9991577fe6fa59558bbaf653c2''"
    by code_simp
  have E: "sha256_hexdigest [CHR ''['', CHR ''{'', CHR 0x22, CHR ''a'', CHR 0x22, CHR '':'', CHR '' '', CHR ''1'', CHR '','', CHR '' '', CHR 0x22, CHR ''b'', CHR 0x22, CHR '':'', CHR '' '', CHR ''2'', CHR ''}'', CHR '','', CHR '' '', CHR ''{'', CHR 0x22, CHR ''c'', CHR 0x22, CHR '':'', CHR '' '', CHR ''3'', CHR ''}'', CHR '']''] =
    ''076c47da7f946bbad08639ba63a0952ae2876b9991577fe6fa59558bbaf653c2''"
    unfolding sha256_hexdigest_def sha256_def B by (simp add: C D)
  show ?thesis
    unfolding generate_cache_key_def T by (simp add: E)
qed

lemma example_dicts_wf_content:
  "wf_json (JDict [(''b'', JInt 2), (''a'', JInt 1)]) \<and>
   wf_json (JDict [(''a'', JInt 1), (''b'', JInt 2)]) \<and>
   content (JDict [(''b'', JInt 2), (''a'', JInt 1)]) = content (JDict [(''a'', JInt 1), (''b'', JInt 2)])"
  by auto

text \<open>
  Claim C1.  Key derivation does not depend on the order of keys: two parameter
  mappings (dicts without a repeated key, at any depth) with the same content, that is,
  equal as sets of key/value pairs at every level of nesting, get the same cache key.
  In particular \<^verbatim>\<open>{"b": 2, "a": 1}\<close> and \<^verbatim>\<open>{"a": 1, "b": 2}\<close> get the same key, so do
  \<^verbatim>\<open>[{"b": 2, "a": 1}]\<close> and \<^verbatim>\<open>[{"a": 1, "b": 2}]\<close>, and the key of the latter is not the
  key of \<^verbatim>\<open>[{"a": 1, "b": 2}, {"c": 3}]\<close>.
\<close>

theorem C1_key_order_invariance:
  "(\<forall>A B. wf_json (JDict A) \<and> wf_json (JDict B) \<and> content (JDict A) = content (JDict B)
      \<longrightarrow> generate_cache_key (JDict A) = generate_cache_key (JDict B))
   \<and> generate_cache_key (JDict [(''b'', JInt 2), (''a'', JInt 1)]) =
     generate_cache_key (JDict [(''a'', JInt 1), (''b'', JInt 2)])
   \<and> generate_cache_key (JList [JDict [(''b'', JInt 2), (''a'', JInt 1)]]) =
     generate_cache_key (JList [JDict [(''a'', JInt 1), (''b'', JInt 2)]])
   \<and> generate_cache_key (JList [JDict [(''a'', JInt 1), (''b'', JInt 2)]]) \<noteq>
     generate_cache_key (JList [JDict [(''a'', JInt 1), (''b'', JInt 2)], JDict [(''c'', JInt 3)]])"
proof (intro conjI allI impI)
  fix A B
  assume "wf_json (JDict A) \<and> wf_json (JDict B) \<and> content (JDict A) = content (JDict B)"
  then have "key_text (JDict A) = key_text (JDict B)"
    using key_text_dict_content by blast
  then show "generate_cache_key (JDict A) = generate_cache_key (JDict B)"
    by (simp only: generate_cache_key_def)
next
  have "key_text (JDict [(''b'', JInt 2), (''a'', JInt 1)]) = key_text (JDict [(''a'', JInt 1), (''b'', JInt 2)])"
    using key_text_dict_content example_dicts_wf_content by blast
  then show "generate_cache_key (JDict [(''b'', JInt 2), (''a'', JInt 1)]) =
     generate_cache_key (JDict [(''a'', JInt 1), (''b'', JInt 2)])"
    by (simp only: generate_cache_key_def)
next
  show "generate_cache_key (JList [JDict [(''b'', JInt 2), (''a'', JInt 1)]]) =
     generate_cache_key (JList [JDict [(''a'', JInt 1), (''b'', JInt 2)]])"
    using key_example_list1 by (simp only: generate_cache_key_def)
next
  show "generate_cache_key (JList [JDict [(''a'', JInt 1), (''b'', JInt 2)]]) \<noteq>
     generate_cache_key (JList [JDict [(''a'', JInt 1), (''b'', JInt 2)], JDict [(''c'', JInt 3)]])"
    unfolding key_example_digest1 key_example_digest2 by simp
qed

text \<open>The first part of C1 at the two dicts of the example.\<close>

theorem C1_key_order_invariance_witness:
  "wf_json (JDict [(''b'', JInt 2), (''a'', JInt 1)]) \<and>
   wf_json (JDict [(''a'', JInt 1), (''b'', JInt 2)]) \<and>
   content (JDict [(''b'', JInt 2), (''a'', JInt 1)]) = content (JDict [(''a'', JInt 1), (''b'', JInt 2)]) \<and>
   generate_cache_key (JDict [(''b'', JInt 2), (''a'', JInt 1)]) =
     generate_cache_key (JDict [(''a'', JInt 1), (''b'', JInt 2)])"
  using C1_key_order_invariance example_dicts_wf_content by blast

section \<open>Connecting with retries\<close>

lemma upt_three: "[0..<3] = [0, 1, 2::nat]"
  by (simp add: upt_rec)

lemma attempts_list: "[0..<max_retries] = [0, 1, 2]"
  by (simp add: max_retries_def upt_rec)

lemma connect_after_failures:
  assumes "\<not> redis_client w" "redis_url_set w"
    and "faults w = replicate k (Some RedisConnectionError) @ fs"
    and "fs = [] \<or> hd fs = None" and "k < 3"
  shows "get_redis_client w =
           (Inr True, w\<lparr>redis_client := True, faults := tl fs,
                          sleeps := sleeps w @ map (\<lambda>i. 2 ^ i) [0..<k]\<rparr>)"
proof -
  from \<open>k < 3\<close> consider "k = 0" | "k = 1" | "k = 2" by linarith
  then show ?thesis
  proof cases
    case 1
    with assms show ?thesis
      by (cases fs)
         (auto simp: get_redis_client_def attempts_list upt_three server_call_def split: list.splits option.splits)
  next
    case 2
    with assms show ?thesis
      by (cases fs)
         (auto simp: get_redis_client_def attempts_list upt_three server_call_def max_retries_def retry_delay_def
               split: list.splits option.splits)
  next
    case 3
    with assms show ?thesis
      by (cases fs)
         (auto simp: get_redis_client_def attempts_list upt_three server_call_def max_retries_def retry_delay_def
               numeral_2_eq_2 split: list.splits option.splits)
  qed
qed

lemma connect_exhausted:
  assumes "\<not> redis_client w" "redis_url_set w"
    and "faults w = replicate 3 (Some RedisConnectionError) @ fs"
  shows "get_redis_client w =
           (Inl ConnectionError, w\<lparr>redis_client := False, faults := fs,
                                     sleeps := sleeps w @ [1, 2]\<rparr>)"
  using assms
  by (auto simp: get_redis_client_def attempts_list upt_three server_call_def max_retries_def retry_delay_def
           numeral_3_eq_3)

lemma connect_other_failure:
  assumes "\<not> redis_client w" "redis_url_set w"
    and "faults w = replicate k (Some RedisConnectionError) @ Some e # fs"
    and "e \<noteq> RedisConnectionError" and "k < 3"
  shows "get_redis_client w =
           (Inl ConnectionError, w\<lparr>redis_client := False, faults := fs,
                                     sleeps := sleeps w @ map (\<lambda>i. 2 ^ i) [0..<k]\<rparr>)"
proof -
  from \<open>k < 3\<close> consider "k = 0" | "k = 1" | "k = 2" by linarith
  then show ?thesis
  proof cases
    case 1
    with assms show ?thesis
      by (cases e)
         (auto simp: get_redis_client_def attempts_list upt_three server_call_def)
  next
    case 2
    with assms show ?thesis
      by (cases e)
         (auto simp: get_redis_client_def attempts_list upt_three server_call_def max_retries_def retry_delay_def)
  next
    case 3
    with assms show ?thesis
      by (cases e)
         (auto simp: get_redis_client_def attempts_list upt_three server_call_def max_retries_def retry_delay_def
               numeral_2_eq_2)
  qed
qed

lemma connect_loop_failure:
  "connect_loop as w = (Inl e, w') \<Longrightarrow>
     e = ConnectionError \<and> \<not> redis_client w' \<and> redis_url_set w' = redis_url_set w"
proof (induction as arbitrary: w)
  case Nil
  then show ?case by simp
next
  case (Cons a as)
  show ?case
  proof (cases "server_call (w\<lparr>redis_client := True\<rparr>)")
    case (Pair r v)
    have u: "redis_url_set v = redis_url_set w"
      using Pair by (auto simp: server_call_def split: list.splits option.splits)
    show ?thesis
    proof (cases r)
      case (Inr u)
      with Cons.prems Pair show ?thesis by simp
    next
      case (Inl x)
      show ?thesis
      proof (cases "x = RedisConnectionError \<and> a < max_retries - 1")
        case True
        with Cons.prems Pair Inl
        have "connect_loop as (v\<lparr>sleeps := sleeps v @ [retry_delay * 2 ^ a]\<rparr>) = (Inl e, w')"
          by simp
        from Cons.IH [OF this] u show ?thesis by simp
      next
        case False
        with Cons.prems Pair Inl u show ?thesis
          by (cases x) (auto split: if_splits)
      qed
    qed
  qed
qed


text \<open>
  Claim C6 says that the typed connection error is raised only after all retries are
  exhausted.  Only a \<^verbatim>\<open>redis.exceptions.ConnectionError\<close> is retried: here the first attempt
  times out, the network would have answered the second one, and the call raises
  \<^verbatim>\<open>ConnectionError\<close> after that single attempt, without sleeping.
\<close>

theorem C6_raised_before_retries_counterexample:
  "get_redis_client (fresh_world\<lparr>faults := [Some RedisTimeoutError, None]\<rparr>) =
     (Inl ConnectionError, fresh_world\<lparr>faults := [None]\<rparr>) \<and>
   sleeps (snd (get_redis_client (fresh_world\<lparr>faults := [Some RedisTimeoutError, None]\<rparr>))) = [] \<and>
   length (faults (fresh_world\<lparr>faults := [Some RedisTimeoutError, None]\<rparr>)) -
     length (faults (snd (get_redis_client (fresh_world\<lparr>faults := [Some RedisTimeoutError, None]\<rparr>)))) = 1"
  by (simp add: get_redis_client_def attempts_list server_call_def fresh_world_def)

text \<open>
  Claim C6, amended.  With no client yet and \<^verbatim>\<open>REDIS_URL\<close> set, \<^verbatim>\<open>get_redis_client\<close> retries
  a \<^verbatim>\<open>redis.exceptions.ConnectionError\<close>, and nothing else, up to three attempts.  After
  \<open>k < 3\<close> such failures followed by a success it returns the client, having slept 1 second
  after the first failure and 2 seconds after the second.  After three of them it raises
  \<^verbatim>\<open>ConnectionError\<close>, having slept 1 and 2 seconds.  Any other exception in an attempt
  raises \<^verbatim>\<open>ConnectionError\<close> at once, with no further attempt and no sleep after it.
  Whenever the call raises, the error is \<^verbatim>\<open>ConnectionError\<close> and the global is left empty,
  so that the next call runs the three attempts again from the first.
\<close>

theorem C6_retry_connection_errors_only:
  "\<not> redis_client w \<and> redis_url_set w \<longrightarrow>
     (\<forall>k fs. k < 3 \<and> faults w = replicate k (Some RedisConnectionError) @ fs \<and> (fs = [] \<or> hd fs = None)
        \<longrightarrow> get_redis_client w =
              (Inr True, w\<lparr>redis_client := True, faults := tl fs,
                             sleeps := sleeps w @ map (\<lambda>i. 2 ^ i) [0..<k]\<rparr>)) \<and>
     (\<forall>fs. faults w = replicate 3 (Some RedisConnectionError) @ fs
        \<longrightarrow> get_redis_client w =
              (Inl ConnectionError,
               w\<lparr>redis_client := False, faults := fs, sleeps := sleeps w @ [1, 2]\<rparr>)) \<and>
     (\<forall>k e fs. k < 3 \<and> e \<noteq> RedisConnectionError \<and>
          faults w = replicate k (Some RedisConnectionError) @ Some e # fs
        \<longrightarrow> get_redis_client w =
              (Inl ConnectionError,
               w\<lparr>redis_client := False, faults := fs,
                 sleeps := sleeps w @ map (\<lambda>i. 2 ^ i) [0..<k]\<rparr>)) \<and>
     (\<forall>e w'. get_redis_client w = (Inl e, w')
        \<longrightarrow> e = ConnectionError \<and> \<not> redis_client w' \<and> redis_url_set w' \<and>
            get_redis_client w' = connect_loop [0, 1, 2] w')"
  (is "_ \<longrightarrow> ?A \<and> ?B \<and> ?C \<and> ?D")
proof
  assume w: "\<not> redis_client w \<and> redis_url_set w"
  have a: ?A
  proof (intro allI impI)
    fix k fs
    assume h: "k < 3 \<and> faults w = replicate k (Some RedisConnectionError) @ fs \<and> (fs = [] \<or> hd fs = None)"
    show "get_redis_client w =
            (Inr True, w\<lparr>redis_client := True, faults := tl fs,
                           sleeps := sleeps w @ map (\<lambda>i. 2 ^ i) [0..<k]\<rparr>)"
      using connect_after_failures [of w k fs] w h by simp
  qed
  have b: ?B
  proof (intro allI impI)
    fix fs
    assume h: "faults w = replicate 3 (Some RedisConnectionError) @ fs"
    show "get_redis_client w =
            (Inl ConnectionError,
             w\<lparr>redis_client := False, faults := fs, sleeps := sleeps w @ [1, 2]\<rparr>)"
      using connect_exhausted [of w fs] w h by simp
  qed
  have c: ?C
  proof (intro allI impI)
    fix k e fs
    assume h: "k < 3 \<and> e \<noteq> RedisConnectionError \<and>
          faults w = replicate k (Some RedisConnectionError) @ Some e # fs"
    show "get_redis_client w =
            (Inl ConnectionError,
             w\<lparr>redis_client := False, faults := fs,
               sleeps := sleeps w @ map (\<lambda>i. 2 ^ i) [0..<k]\<rparr>)"
      using connect_other_failure [of w k e fs] w h by simp
  qed
  have d: ?D
  proof (intro allI impI)
    fix e w'
    assume h: "get_redis_client w = (Inl e, w')"
    from w h have "connect_loop [0..<max_retries] w = (Inl e, w')"
      by (simp add: get_redis_client_def)
    from connect_loop_failure [OF this] w
    have r: "e = ConnectionError \<and> \<not> redis_client w' \<and> redis_url_set w'" by simp
    then have "get_redis_client w' = connect_loop [0, 1, 2] w'"
      by (simp add: get_redis_client_def attempts_list)
    with r show "e = ConnectionError \<and> \<not> redis_client w' \<and> redis_url_set w' \<and>
              get_redis_client w' = connect_loop [0, 1, 2] w'"
      by simp
  qed
  from a b c d show "?A \<and> ?B \<and> ?C \<and> ?D" by (intro conjI)
qed

text \<open>
  C6 (amended) at a network that refuses the first connection, times out on the second
  and answers the third: the first call raises after one retry, the second call succeeds
  at its first attempt.
\<close>

theorem C6_retry_connection_errors_only_witness:
  "\<not> redis_client (fresh_world\<lparr>faults := [Some RedisConnectionError, Some RedisTimeoutError, None]\<rparr>) \<and>
   redis_url_set (fresh_world\<lparr>faults := [Some RedisConnectionError, Some RedisTimeoutError, None]\<rparr>) \<and>
   get_redis_client (fresh_world\<lparr>faults := [Some RedisConnectionError, Some RedisTimeoutError, None]\<rparr>) =
     (Inl ConnectionError, fresh_world\<lparr>redis_client := False, faults := [None], sleeps := [1]\<rparr>) \<and>
   get_redis_client (fresh_world\<lparr>redis_client := False, faults := [None], sleeps := [1]\<rparr>) =
     (Inr True, fresh_world\<lparr>redis_client := True, faults := [], sleeps := [1]\<rparr>)"
proof -
  let ?w = "fresh_world\<lparr>faults := [Some RedisConnectionError, Some RedisTimeoutError, None]\<rparr>"
  let ?v = "fresh_world\<lparr>redis_client := False, faults := [None], sleeps := [1]\<rparr>"
  have a: "\<not> redis_client ?w \<and> redis_url_set ?w" by (simp add: fresh_world_def)
  have b: "\<not> redis_client ?v \<and> redis_url_set ?v" by (simp add: fresh_world_def)
  have f: "(1::nat) < 3 \<and> RedisTimeoutError \<noteq> RedisConnectionError \<and>
           faults ?w = replicate 1 (Some RedisConnectionError) @ Some RedisTimeoutError # [None]"
    by simp
  have g: "(0::nat) < 3 \<and> faults ?v = replicate 0 (Some RedisConnectionError) @ [None] \<and>
           ([None :: exn option] = [] \<or> hd [None :: exn option] = None)"
    by simp
  from C6_retry_connection_errors_only [of ?w] a
  have "\<forall>k e fs. k < 3 \<and> e \<noteq> RedisConnectionError \<and>
          faults ?w = replicate k (Some RedisConnectionError) @ Some e # fs
        \<longrightarrow> get_redis_client ?w =
              (Inl ConnectionError,
               ?w\<lparr>redis_client := False, faults := fs,
                 sleeps := sleeps ?w @ map (\<lambda>i. 2 ^ i) [0..<k]\<rparr>)"
    by blast
  from this [rule_format, OF f]
  have 1: "get_redis_client ?w = (Inl ConnectionError, ?v)"
    by (simp add: fresh_world_def)
  from C6_retry_connection_errors_only [of ?v] b
  have "\<forall>k fs. k < 3 \<and> faults ?v = replicate k (Some RedisConnectionError) @ fs \<and> (fs = [] \<or> hd fs = None)
        \<longrightarrow> get_redis_client ?v =
              (Inr True, ?v\<lparr>redis_client := True, faults := tl fs,
                             sleeps := sleeps ?v @ map (\<lambda>i. 2 ^ i) [0..<k]\<rparr>)"
    by blast
  from this [rule_format, OF g]
  have 2: "get_redis_client ?v =
             (Inr True, fresh_world\<lparr>redis_client := True, faults := [], sleeps := [1]\<rparr>)"
    by (simp add: fresh_world_def)
  show ?thesis using a 1 2 by simp
qed

section \<open>A disabled cache\<close>

text \<open>
  Claim C3 says that a put succeeds when the cache is disabled.  It does not write, but it
  reports failure: \<^verbatim>\<open>store_data_with_key\<close> returns \<^verbatim>\<open>False\<close> and \<^verbatim>\<open>store_data\<close> returns \<^verbatim>\<open>None\<close>,
  the values their docstrings reserve for an unsuccessful store.
\<close>

theorem C3_disabled_put_fails_counterexample:
  "fst (store_data_with_key ''k'' (JInt 1) None (fresh_world\<lparr>cfg_enabled := False\<rparr>)) = Inr False \<and>
   fst (store_data [(''region'', JStr ''X'')] [] None (fresh_world\<lparr>cfg_enabled := False\<rparr>)) = Inr None"
  by (simp add: store_data_with_key_def store_data_def bind_def gets_def ret_def fresh_world_def)

text \<open>
  Claim C3, amended.  When the enabled flag is false, \<^verbatim>\<open>get_cached_data_by_key\<close> and
  \<^verbatim>\<open>get_cached_data\<close> return \<^verbatim>\<open>None\<close>, \<^verbatim>\<open>store_data_with_key\<close> returns \<^verbatim>\<open>False\<close> and \<^verbatim>\<open>store_data\<close>
  returns \<^verbatim>\<open>None\<close>; none of them raises, connects or changes the store.
\<close>

theorem C3_disabled_noop:
  "\<not> cfg_enabled w \<longrightarrow>
     get_cached_data_by_key cache_key w = (Inr JNull, w) \<and>
     get_cached_data cache_params analysis_type w = (Inr JNull, w) \<and>
     store_data_with_key cache_key data expiration w = (Inr False, w) \<and>
     store_data params analysis_type expiration w = (Inr None, w)"
  by (simp add: get_cached_data_by_key_def get_cached_data_def store_data_with_key_def store_data_def
        bind_def gets_def ret_def)

text \<open>C3 (amended) at a disabled cache.\<close>

theorem C3_disabled_noop_witness:
  "\<not> cfg_enabled (fresh_world\<lparr>cfg_enabled := False\<rparr>) \<and>
   get_cached_data_by_key ''k'' (fresh_world\<lparr>cfg_enabled := False\<rparr>) =
     (Inr JNull, fresh_world\<lparr>cfg_enabled := False\<rparr>) \<and>
   store_data_with_key ''k'' (JInt 1) None (fresh_world\<lparr>cfg_enabled := False\<rparr>) =
     (Inr False, fresh_world\<lparr>cfg_enabled := False\<rparr>)"
  using C3_disabled_noop [of "fresh_world\<lparr>cfg_enabled := False\<rparr>" "''k''" "[]" "[]" "JInt 1" None "[]"]
  by simp

section \<open>The sweep of the file cache\<close>

lemma sweep_prefix:
  "\<forall>g \<in> set pre. \<not> sweep_raises now s g \<Longrightarrow>
   sweep now s (pre @ rest) n =
     (case sweep now s rest (n + length (filter (sweep_removes now s) pre)) of
        (r, left) \<Rightarrow> (r, filter (\<lambda>g. \<not> sweep_removes now s g) pre @ left))"
  by (induction pre arbitrary: n)
     (auto simp: sweep_raises_def sweep_removes_def split: prod.splits)

lemma sweep_stops:
  "sweep_raises now s f \<Longrightarrow> sweep now s (f # post) n = ((Some OSError, n), f # post)"
  by (auto simp: sweep_raises_def)


lemma sweep_clean:
  assumes "\<forall>g \<in> set fs. \<not> sweep_raises now s g"
  shows "sweep now s fs n =
           ((None, n + length (filter (sweep_removes now s) fs)),
            filter (\<lambda>g. \<not> sweep_removes now s g) fs)"
  using sweep_prefix [OF assms, of "[]" n] by simp

lemma sweep_split:
  "\<exists>visited rest. fs = visited @ rest \<and> (\<forall>g \<in> set visited. \<not> sweep_raises now s g) \<and>
     (rest = [] \<or> sweep_raises now s (hd rest))"
proof (intro exI conjI)
  show "fs = takeWhile (\<lambda>g. \<not> sweep_raises now s g) fs @ dropWhile (\<lambda>g. \<not> sweep_raises now s g) fs"
    by simp
  show "\<forall>g \<in> set (takeWhile (\<lambda>g. \<not> sweep_raises now s g) fs). \<not> sweep_raises now s g"
    by (auto dest: set_takeWhileD)
  show "dropWhile (\<lambda>g. \<not> sweep_raises now s g) fs = [] \<or>
        sweep_raises now s (hd (dropWhile (\<lambda>g. \<not> sweep_raises now s g) fs))"
    using hd_dropWhile [of "\<lambda>g. \<not> sweep_raises now s g" fs] by auto
qed

lemma sweep_until_error:
  assumes "\<forall>g \<in> set visited. \<not> sweep_raises now s g"
    and "rest = [] \<or> sweep_raises now s (hd rest)"
  shows "\<exists>e. sweep now s (visited @ rest) 0 =
           ((e, length (filter (sweep_removes now s) visited)),
            filter (\<lambda>g. \<not> sweep_removes now s g) visited @ rest)"
proof (cases rest)
  case Nil
  then show ?thesis using sweep_clean [OF assms(1), of 0] by simp
next
  case (Cons f post)
  with assms(2) have "sweep_raises now s f" by simp
  from sweep_stops [OF this] show ?thesis
    unfolding Cons sweep_prefix [OF assms(1)] by simp
qed

lemma float_gt_int_val:
  assumes "\<bar>float_val x\<bar> < 2 ^ 1024"
  shows "float_gt_int x s \<longleftrightarrow> of_int s < float_val x"
proof (cases x)
  case (Pair m e)
  show ?thesis
  proof (cases "0 \<le> e")
    case True
    with assms Pair have "\<bar>(of_int (m * 2 ^ nat e) :: real)\<bar> < 2 ^ 1024"
      by (simp add: float_val_def)
    then have "\<bar>(of_int (m * 2 ^ nat e) :: real)\<bar> < of_int (2 ^ 1024)" by simp
    then have "\<bar>m * 2 ^ nat e\<bar> < 2 ^ 1024"
      unfolding of_int_abs [symmetric] of_int_less_iff .
    then have n: "(2 ^ 1024 \<le> \<bar>m\<bar> * 2 ^ nat e) = False" by (simp add: abs_mult)
    have eq: "(of_int s < (of_int (m * 2 ^ nat e) :: real)) = (s < m * 2 ^ nat e)"
      by (rule of_int_less_iff)
    show ?thesis
      by (simp only: Pair float_gt_int_def float_val_def prod.case True if_True n if_False eq)
  next
    case False
    have "(of_int s < (of_int m :: real) / 2 ^ nat (- e)) = ((of_int (s * 2 ^ nat (- e)) :: real) < of_int m)"
      by (simp add: pos_less_divide_eq)
    also have "\<dots> = (s * 2 ^ nat (- e) < m)" by (rule of_int_less_iff)
    finally show ?thesis using False Pair by (simp add: float_gt_int_def float_val_def)
  qed
qed

text \<open>
  The age is rounded as the machine rounds it: the exact difference of these two times
  is above seven days, the difference that the subtraction returns is seven days.
\<close>

lemma file_age_is_rounded:
  "float_val (5195192441241601, - 33) - float_val (1, - 34) > 604800 \<and>
   float_sub (5195192441241601, - 33) (1, - 34) = (5195192441241600, - 33) \<and>
   float_val (5195192441241600, - 33) = 604800 \<and>
   \<not> float_gt_int (float_sub (5195192441241601, - 33) (1, - 34)) 604800"
proof -
  have a: "float_sub (5195192441241601, - 33) (1, - 34) = (5195192441241600, - 33)"
    by code_simp
  have b: "\<not> float_gt_int (5195192441241600, - 33) 604800"
    by code_simp
  have c: "float_val (5195192441241601, - 33) - float_val (1, - 34) > 604800"
    by (simp add: float_val_def)
  have d: "float_val (5195192441241600, - 33) = 604800"
    by (simp add: float_val_def)
  show ?thesis unfolding a using b c d by (intro conjI) simp_all
qed

lemma float_examples:
  "float_sub (1000000, 0) (0, 0) = (1000000, 0)"
  "float_sub (1000000, 0) (395200, 0) = (604800, 0)"
  "float_gt_int (1000000, 0) 604800"
  "\<not> float_gt_int (604800, 0) 604800"
  by code_simp+

lemma float_val_examples:
  "float_val (1000000, 0) = 1000000"
  "float_val (604800, 0) = 604800"
  by (simp_all add: float_val_def)

lemma clean_vanished_dir:
  "clean_expired_files 7 (1000000, 0) vanished_dir =
     (Inr 1, vanished_dir\<lparr>entries :=
        [edge_file, old_file\<lparr>fname := ''gone.tif'', getmtime_fails := True\<rparr>,
         old_file\<lparr>fname := ''b.tif''\<rparr>]\<rparr>)"
  by (simp add: clean_expired_files_def vanished_dir_def old_file_def edge_file_def expired_def
        file_age_def float_examples)

text \<open>
  Claim C8 says that a regular file is removed if and only if it is older than the
  threshold.  In this directory \<^verbatim>\<open>os.path.getmtime\<close> raises on \<^verbatim>\<open>gone.tif\<close>; \<^verbatim>\<open>b.tif\<close>, listed
  after it, is a regular file, nothing fails on it, its age of 1000000 seconds is above
  seven days, and it is still there after the sweep.
\<close>

theorem C8_old_file_kept_counterexample:
  "clean_expired_files 7 (1000000, 0) vanished_dir =
     (Inr 1, vanished_dir\<lparr>entries :=
        [edge_file, old_file\<lparr>fname := ''gone.tif'', getmtime_fails := True\<rparr>,
         old_file\<lparr>fname := ''b.tif''\<rparr>]\<rparr>) \<and>
   old_file\<lparr>fname := ''b.tif''\<rparr> \<in> set (entries vanished_dir) \<and>
   \<not> is_dir (old_file\<lparr>fname := ''b.tif''\<rparr>) \<and>
   \<not> getmtime_fails (old_file\<lparr>fname := ''b.tif''\<rparr>) \<and>
   \<not> remove_fails (old_file\<lparr>fname := ''b.tif''\<rparr>) \<and>
   float_val (file_age (1000000, 0) (old_file\<lparr>fname := ''b.tif''\<rparr>)) = 1000000 \<and>
   float_gt_int (file_age (1000000, 0) (old_file\<lparr>fname := ''b.tif''\<rparr>)) (7 * 86400) \<and>
   old_file\<lparr>fname := ''b.tif''\<rparr> \<in> set (entries (snd (clean_expired_files 7 (1000000, 0) vanished_dir)))"
  by (simp add: clean_expired_files_def vanished_dir_def old_file_def edge_file_def expired_def
        file_age_def float_examples float_val_examples)

text \<open>
  Claim C8, amended.  When the directory can be created and listed, \<^verbatim>\<open>clean_expired_files\<close>
  visits the entries in the order of the listing, up to the first one on which a file
  operation raises, and all of them when none raises.  Among the visited entries it
  removes exactly the regular files whose age, \<^verbatim>\<open>now - mtime\<close> as the double-precision
  subtraction returns it, is strictly greater than \<open>max_age_days * 86400\<close>; the entry that
  raised and the entries after it are left in place; the function returns the number of
  files removed.  A file whose age is the threshold or less is never removed.
\<close>

theorem C8_eviction_until_error:
  "\<not> makedirs_fails d \<and> \<not> listdir_fails d \<longrightarrow>
     (\<exists>visited rest.
        entries d = visited @ rest \<and>
        (\<forall>g \<in> set visited. \<not> sweep_raises now (max_age_days * 86400) g) \<and>
        (rest = [] \<or> sweep_raises now (max_age_days * 86400) (hd rest)) \<and>
        ((\<forall>f \<in> set (entries d). \<not> getmtime_fails f \<and> \<not> remove_fails f) \<longrightarrow> rest = []) \<and>
        clean_expired_files max_age_days now d =
          (Inr (length (filter (\<lambda>f. \<not> is_dir f \<and> float_gt_int (file_age now f) (max_age_days * 86400))
                          visited)),
           d\<lparr>entries := filter (\<lambda>f. is_dir f \<or> \<not> float_gt_int (file_age now f) (max_age_days * 86400))
                           visited @ rest\<rparr>) \<and>
        (\<forall>f \<in> set (entries d).
           \<bar>float_val (file_age now f)\<bar> < 2 ^ 1024 \<and>
           float_val (file_age now f) \<le> of_int (max_age_days * 86400) \<longrightarrow>
             f \<in> set (entries (snd (clean_expired_files max_age_days now d)))))"
proof
  let ?s = "max_age_days * 86400"
  assume ok: "\<not> makedirs_fails d \<and> \<not> listdir_fails d"
  from sweep_split [of "entries d" now ?s] obtain visited rest where
    sp: "entries d = visited @ rest"
    and vis: "\<forall>g \<in> set visited. \<not> sweep_raises now ?s g"
    and rst: "rest = [] \<or> sweep_raises now ?s (hd rest)"
    by blast
  from sweep_until_error [OF vis rst] obtain e where
    sw: "sweep now ?s (visited @ rest) 0 =
           ((e, length (filter (sweep_removes now ?s) visited)),
            filter (\<lambda>g. \<not> sweep_removes now ?s g) visited @ rest)"
    by blast
  have res: "clean_expired_files max_age_days now d =
          (Inr (length (filter (\<lambda>f. \<not> is_dir f \<and> float_gt_int (file_age now f) ?s) visited)),
           d\<lparr>entries := filter (\<lambda>f. is_dir f \<or> \<not> float_gt_int (file_age now f) ?s) visited @ rest\<rparr>)"
    using ok sp sw by (simp add: clean_expired_files_def sweep_removes_def [abs_def] expired_def)
  have healthy: "rest = []" if h: "\<forall>f \<in> set (entries d). \<not> getmtime_fails f \<and> \<not> remove_fails f"
  proof (rule ccontr)
    assume ne: "rest \<noteq> []"
    with rst have r: "sweep_raises now ?s (hd rest)" by simp
    from ne sp have "hd rest \<in> set (entries d)" by simp
    with h r show False by (simp add: sweep_raises_def)
  qed
  have stays: "f \<in> set (entries (snd (clean_expired_files max_age_days now d)))"
    if f: "f \<in> set (entries d)" and fin: "\<bar>float_val (file_age now f)\<bar> < 2 ^ 1024"
      and le: "float_val (file_age now f) \<le> of_int ?s" for f
  proof -
    from float_gt_int_val [OF fin, of ?s] le have "\<not> float_gt_int (file_age now f) ?s" by simp
    with f sp show ?thesis unfolding res by auto
  qed
  show "\<exists>visited rest.
        entries d = visited @ rest \<and>
        (\<forall>g \<in> set visited. \<not> sweep_raises now ?s g) \<and>
        (rest = [] \<or> sweep_raises now ?s (hd rest)) \<and>
        ((\<forall>f \<in> set (entries d). \<not> getmtime_fails f \<and> \<not> remove_fails f) \<longrightarrow> rest = []) \<and>
        clean_expired_files max_age_days now d =
          (Inr (length (filter (\<lambda>f. \<not> is_dir f \<and> float_gt_int (file_age now f) ?s) visited)),
           d\<lparr>entries := filter (\<lambda>f. is_dir f \<or> \<not> float_gt_int (file_age now f) ?s) visited @ rest\<rparr>) \<and>
        (\<forall>f \<in> set (entries d).
           \<bar>float_val (file_age now f)\<bar> < 2 ^ 1024 \<and> float_val (file_age now f) \<le> of_int ?s \<longrightarrow>
             f \<in> set (entries (snd (clean_expired_files max_age_days now d))))"
    using sp vis rst res healthy stays by (intro exI [of _ visited] exI [of _ rest]) blast
qed

text \<open>
  C8 (amended) at a directory with a file older than seven days, a file exactly seven days
  old, a file that has vanished, and another old file after it.
\<close>

theorem C8_eviction_until_error_witness:
  "\<not> makedirs_fails vanished_dir \<and> \<not> listdir_fails vanished_dir \<and>
   edge_file \<in> set (entries vanished_dir) \<and>
   float_val (file_age (1000000, 0) edge_file) = of_int (7 * 86400) \<and>
   edge_file \<in> set (entries (snd (clean_expired_files 7 (1000000, 0) vanished_dir))) \<and>
   (\<exists>visited rest.
        entries vanished_dir = visited @ rest \<and>
        (\<forall>g \<in> set visited. \<not> sweep_raises (1000000, 0) (7 * 86400) g) \<and>
        (rest = [] \<or> sweep_raises (1000000, 0) (7 * 86400) (hd rest)) \<and>
        clean_expired_files 7 (1000000, 0) vanished_dir =
          (Inr (length (filter (\<lambda>f. \<not> is_dir f \<and> float_gt_int (file_age (1000000, 0) f) (7 * 86400))
                          visited)),
           vanished_dir\<lparr>entries :=
              filter (\<lambda>f. is_dir f \<or> \<not> float_gt_int (file_age (1000000, 0) f) (7 * 86400))
                visited @ rest\<rparr>))"
proof -
  have h: "\<not> makedirs_fails vanished_dir \<and> \<not> listdir_fails vanished_dir"
    by (simp add: vanished_dir_def)
  have a: "edge_file \<in> set (entries vanished_dir) \<and>
     float_val (file_age (1000000, 0) edge_file) = of_int (7 * 86400) \<and>
     \<bar>float_val (file_age (1000000, 0) edge_file)\<bar> < 2 ^ 1024"
    by (simp add: vanished_dir_def old_file_def edge_file_def file_age_def float_examples
          float_val_examples)
  then have b: "\<bar>float_val (file_age (1000000, 0) edge_file)\<bar> < 2 ^ 1024 \<and>
     float_val (file_age (1000000, 0) edge_file) \<le> of_int (7 * 86400)"
    by simp
  show ?thesis
    using h a b C8_eviction_until_error [where d = vanished_dir and max_age_days = 7 and now = "(1000000, 0)"] by blast
qed

text \<open>
  Claim C9 says that the sweep skips a file on which an operation raises and goes on.
  The \<^verbatim>\<open>try\<close> encloses the whole loop: here the first file cannot be removed, and the second,
  older than the threshold and removable, is left in place; the sweep returns 0.
\<close>

theorem C9_sweep_continues_counterexample:
  "clean_expired_files 7 (1000000, 0) demo_dir = (Inr 0, demo_dir) \<and>
   entries demo_dir ! 1 = old_file \<and>
   \<not> is_dir old_file \<and> \<not> getmtime_fails old_file \<and> \<not> remove_fails old_file \<and>
   float_gt_int (file_age (1000000, 0) old_file) (7 * 86400) \<and>
   float_val (file_age (1000000, 0) old_file) = 1000000"
  by (simp add: clean_expired_files_def demo_dir_def old_file_def edge_file_def expired_def
        file_age_def float_examples float_val_examples)

text \<open>
  Claim C9, amended.  An error on an individual file ends the sweep.  The entries listed
  before the file have been handled, the file and every entry listed after it are left
  in place, and the count returned is the number of files removed before the error.
\<close>

theorem C9_error_ends_sweep:
  "\<not> makedirs_fails d \<and> \<not> listdir_fails d \<and> entries d = pre @ f # post \<and>
   (\<forall>g \<in> set pre. \<not> sweep_raises now (max_age_days * 86400) g) \<and>
   sweep_raises now (max_age_days * 86400) f \<longrightarrow>
     clean_expired_files max_age_days now d =
       (Inr (length (filter (sweep_removes now (max_age_days * 86400)) pre)),
        d\<lparr>entries := filter (\<lambda>g. \<not> sweep_removes now (max_age_days * 86400) g) pre @ f # post\<rparr>)"
proof
  let ?s = "max_age_days * 86400"
  assume h: "\<not> makedirs_fails d \<and> \<not> listdir_fails d \<and> entries d = pre @ f # post \<and>
   (\<forall>g \<in> set pre. \<not> sweep_raises now ?s g) \<and> sweep_raises now ?s f"
  then have pre: "\<forall>g \<in> set pre. \<not> sweep_raises now ?s g" and f: "sweep_raises now ?s f"
    by blast+
  have "sweep now ?s (pre @ f # post) 0 =
          ((Some OSError, length (filter (sweep_removes now ?s) pre)),
           filter (\<lambda>g. \<not> sweep_removes now ?s g) pre @ f # post)"
    unfolding sweep_prefix [OF pre] sweep_stops [OF f] by simp
  then show "clean_expired_files max_age_days now d =
       (Inr (length (filter (sweep_removes now ?s) pre)),
        d\<lparr>entries := filter (\<lambda>g. \<not> sweep_removes now ?s g) pre @ f # post\<rparr>)"
    using h by (simp add: clean_expired_files_def)
qed

text \<open>C9 (amended) at a directory whose first file cannot be removed.\<close>

theorem C9_error_ends_sweep_witness:
  "\<not> makedirs_fails demo_dir \<and> \<not> listdir_fails demo_dir \<and>
   entries demo_dir = [] @ (old_file\<lparr>fname := ''locked.tif'', remove_fails := True\<rparr>) # [old_file, edge_file] \<and>
   sweep_raises (1000000, 0) (7 * 86400) (old_file\<lparr>fname := ''locked.tif'', remove_fails := True\<rparr>) \<and>
   clean_expired_files 7 (1000000, 0) demo_dir =
     (Inr (length (filter (sweep_removes (1000000, 0) (7 * 86400)) [])),
      demo_dir\<lparr>entries := filter (\<lambda>g. \<not> sweep_removes (1000000, 0) (7 * 86400) g) [] @
                 (old_file\<lparr>fname := ''locked.tif'', remove_fails := True\<rparr>) # [old_file, edge_file]\<rparr>)"
proof -
  have h: "\<not> makedirs_fails demo_dir \<and> \<not> listdir_fails demo_dir \<and>
   entries demo_dir = [] @ (old_file\<lparr>fname := ''locked.tif'', remove_fails := True\<rparr>) # [old_file, edge_file] \<and>
   (\<forall>g \<in> set []. \<not> sweep_raises (1000000, 0) (7 * 86400) g) \<and>
   sweep_raises (1000000, 0) (7 * 86400) (old_file\<lparr>fname := ''locked.tif'', remove_fails := True\<rparr>)"
    by (simp add: demo_dir_def sweep_raises_def old_file_def expired_def
          file_age_def float_examples)
  show ?thesis
    using h C9_error_ends_sweep [of demo_dir "[]" "old_file\<lparr>fname := ''locked.tif'', remove_fails := True\<rparr>"
        "[old_file, edge_file]" "(1000000, 0)" 7]
    by blast
qed

section \<open>Errors inside the store operations\<close>













section \<open>What a hit returns, and what an increment does to the time to live\<close>

lemma first_call_connects:
  "\<not> redis_client w \<Longrightarrow> redis_url_set w \<Longrightarrow> faults w = [] \<Longrightarrow>
     get_redis_client w = (Inr True, w\<lparr>redis_client := True\<rparr>)"
  by (simp add: get_redis_client_def attempts_list server_call_def)

lemma quiet_call: "faults w = [] \<Longrightarrow> server_call w = (Inr (), w)"
  by (simp add: server_call_def)

lemma ndvi_entry_text:
  \<open>json_dumps False
     (JDict [(''data'', JDict [(''ndvi'', JInt 42)]), (''cached_at'', JFloat ''1700000000.25''),
             (''request_count'', JInt 1)]) =
   Inr ''{"data": {"ndvi": 42}, "cached_at": 1700000000.25, "request_count": 1}''\<close>
  by code_simp

lemma ndvi_entry_loads:
  \<open>json_loads ''{"data": {"ndvi": 42}, "cached_at": 1700000000.25, "request_count": 1}'' =
   Some (JDict [(''data'', JDict [(''ndvi'', JInt 42)]), (''cached_at'', JFloat ''1700000000.25''),
                (''request_count'', JInt 1)])\<close>
  by code_simp

lemma ndvi_entry_text_again:
  \<open>json_dumps False
     (JDict [(''data'', JDict [(''ndvi'', JInt 42)]), (''cached_at'', JFloat ''1700000000.25''),
             (''request_count'', JInt 2)]) =
   Inr ''{"data": {"ndvi": 42}, "cached_at": 1700000000.25, "request_count": 2}''\<close>
  by code_simp

lemma ndvi_put:
  \<open>store_data_with_key ''cache:x'' (JDict [(''ndvi'', JInt 42)]) None fresh_world =
     (Inr True,
      fresh_world\<lparr>redis_client := True,
        db := Map.empty(''cache:x'' \<mapsto>
          (''{"data": {"ndvi": 42}, "cached_at": 1700000000.25, "request_count": 1}'', Some 604800))\<rparr>)\<close>
proof -
  have c: "get_redis_client fresh_world = (Inr True, fresh_world\<lparr>redis_client := True\<rparr>)"
    by (rule first_call_connects) (simp_all add: fresh_world_def)
  have k: "clock fresh_world = ''1700000000.25''" "cfg_enabled fresh_world"
    "cfg_expiration fresh_world = 604800" "faults fresh_world = []" "db fresh_world = Map.empty"
    by (simp_all add: fresh_world_def)
  show ?thesis
    by (simp add: store_data_with_key_def store_data_with_key_try_def try_except_def bind_def gets_def
          ret_def c k ndvi_entry_text redis_setex_def quiet_call)
qed

text \<open>
  Claim C2 says that a hit returns the \<^verbatim>\<open>data\<close> field alone, so that a get after a put
  returns the payload.  \<^verbatim>\<open>get_cached_data_by_key\<close> returns what \<^verbatim>\<open>json.loads\<close> made of the stored
  text, which is the whole entry: after the payload \<^verbatim>\<open>{"ndvi": 42}\<close> has been put, the get
  returns a dict with the keys \<^verbatim>\<open>data\<close>, \<^verbatim>\<open>cached_at\<close> and \<^verbatim>\<open>request_count\<close>.
\<close>

theorem C2_hit_returns_whole_entry:
  \<open>fst (store_data_with_key ''cache:x'' (JDict [(''ndvi'', JInt 42)]) None fresh_world) = Inr True \<and>
   fst (get_cached_data_by_key ''cache:x''
          (snd (store_data_with_key ''cache:x'' (JDict [(''ndvi'', JInt 42)]) None fresh_world))) =
     Inr (JDict [(''data'', JDict [(''ndvi'', JInt 42)]), (''cached_at'', JFloat ''1700000000.25''),
                 (''request_count'', JInt 1)]) \<and>
   fst (get_cached_data_by_key ''cache:x''
          (snd (store_data_with_key ''cache:x'' (JDict [(''ndvi'', JInt 42)]) None fresh_world))) \<noteq>
     Inr (JDict [(''ndvi'', JInt 42)])\<close>
proof -
  let ?w = \<open>fresh_world\<lparr>redis_client := True,
        db := Map.empty(''cache:x'' \<mapsto>
          (''{"data": {"ndvi": 42}, "cached_at": 1700000000.25, "request_count": 1}'', Some 604800))\<rparr>\<close>
  have k: "cfg_enabled ?w" "cfg_expiration ?w = 604800" "faults ?w = []" "redis_client ?w"
    by (simp_all add: fresh_world_def)
  have g: \<open>fst (get_cached_data_by_key ''cache:x'' ?w) =
     Inr (JDict [(''data'', JDict [(''ndvi'', JInt 42)]), (''cached_at'', JFloat ''1700000000.25''),
                 (''request_count'', JInt 1)])\<close>
    by (simp add: get_cached_data_by_key_def get_cached_data_by_key_try_def increment_request_count_def
          increment_request_count_try_def try_except_def bind_def gets_def ret_def lift_def k
          get_redis_client_def redis_get_def redis_ttl_def redis_expire_def redis_setex_def
          server_call_def falsy_def ndvi_entry_loads ndvi_entry_text_again)
  show ?thesis unfolding ndvi_put using g by simp
qed

text \<open>
  Claim C4 says that the increment extends a remaining time to live that is shorter than
  the configured expiration.  \<^verbatim>\<open>increment_request_count\<close> calls \<^verbatim>\<open>expire\<close> with the larger of
  the two times and then \<^verbatim>\<open>setex\<close> with the remaining time it had read, which sets the
  time to live back: an entry with 100 seconds left still has 100 seconds left after the
  increment, under a configured expiration of 604800 seconds.  A key that is no longer
  there is left alone and the call returns \<^verbatim>\<open>None\<close>.
\<close>

theorem C4_increment_resets_ttl:
  \<open>cfg_expiration fresh_world = 604800 \<and>
   increment_request_count ''cache:x''
     (fresh_world\<lparr>redis_client := True,
        db := Map.empty(''cache:x'' \<mapsto>
          (''{"data": {"ndvi": 42}, "cached_at": 1700000000.25, "request_count": 1}'', Some 100))\<rparr>) =
     (Inr (JInt 2),
      fresh_world\<lparr>redis_client := True,
        db := Map.empty(''cache:x'' \<mapsto>
          (''{"data": {"ndvi": 42}, "cached_at": 1700000000.25, "request_count": 2}'', Some 100))\<rparr>) \<and>
   increment_request_count ''cache:x'' (fresh_world\<lparr>redis_client := True\<rparr>) =
     (Inr JNull, fresh_world\<lparr>redis_client := True\<rparr>)\<close>
  by (simp add: increment_request_count_def increment_request_count_try_def try_except_def bind_def
        gets_def ret_def lift_def get_redis_client_def redis_get_def redis_ttl_def redis_expire_def
        redis_setex_def server_call_def falsy_def ndvi_entry_loads ndvi_entry_text_again
        fresh_world_def)

end
